theory Spec2Isabelle
  imports Main "HOL-Library.Word" "HOL-Library.Product_Lexorder"
begin

text \<open>
  A model of the task tracker of \<open>src/App.tsx\<close>: the task record and its mutators, the
  notification gateway, the reminder scheduler, the view projector and the task
  store. Every function of the source is a function here under its own name; what it
  reads from the browser (the clock, the date and string built-ins, the notification
  surface, the local storage) is a parameter, and what it throws is a value \<open>Inl\<close>.
\<close>

section \<open>Strings of the host language\<close>

text \<open>
  A string of the program is a sequence of 16-bit code units. \<open>ascii\<close> writes a
  literal of the source; every character of such a literal is its own code unit.
\<close>

type_synonym jsstring = "16 word list"

definition ascii :: "string \<Rightarrow> jsstring" where
  "ascii s = map of_char s"

text \<open>
  \<open>String.prototype.trim\<close> removes white space and line terminators from both ends:
  TAB, LF, VT, FF, CR, SP, NBSP, the space separators of Unicode (U+1680,
  U+2000..U+200A, U+202F, U+205F, U+3000), LS, PS and the byte order mark.
\<close>

definition isWhiteSpace :: "16 word \<Rightarrow> bool" where
  "isWhiteSpace c =
     (c = 0x09 \<or> c = 0x0A \<or> c = 0x0B \<or> c = 0x0C \<or> c = 0x0D \<or> c = 0x20 \<or> c = 0xA0
      \<or> c = 0x1680 \<or> (0x2000 \<le> c \<and> c \<le> 0x200A) \<or> c = 0x2028 \<or> c = 0x2029
      \<or> c = 0x202F \<or> c = 0x205F \<or> c = 0x3000 \<or> c = 0xFEFF)"

definition trim :: "jsstring \<Rightarrow> jsstring" where
  "trim s = rev (dropWhile isWhiteSpace (rev (dropWhile isWhiteSpace s)))"

text \<open>\<open>s.includes(q)\<close>: \<open>q\<close> occurs in \<open>s\<close> as a contiguous run.\<close>

fun startsWith :: "jsstring \<Rightarrow> jsstring \<Rightarrow> bool" where
  "startsWith s [] = True"
| "startsWith [] (q # qs) = False"
| "startsWith (c # s) (q # qs) = (c = q \<and> startsWith s qs)"

fun includes_str :: "jsstring \<Rightarrow> jsstring \<Rightarrow> bool" where
  "includes_str [] q = (q = [])"
| "includes_str (c # s) q = (startsWith (c # s) q \<or> includes_str s q)"

text \<open>
  Truthiness of an optional string (\<open>!x\<close> in the source holds for \<open>undefined\<close> and for
  the empty string) and of an optional boolean.
\<close>

definition truthy_str :: "jsstring option \<Rightarrow> bool" where
  "truthy_str x = (case x of None \<Rightarrow> False | Some s \<Rightarrow> s \<noteq> [])"

definition truthy_bool :: "bool option \<Rightarrow> bool" where
  "truthy_bool x = (case x of None \<Rightarrow> False | Some b \<Rightarrow> b)"

text \<open>\<open>s || undefined\<close> on a string.\<close>

definition or_undefined :: "jsstring \<Rightarrow> jsstring option" where
  "or_undefined s = (if s = [] then None else Some s)"


section \<open>The data model\<close>

text \<open>
  \<open>type Task\<close>. The optional fields \<open>notes\<close> (here \<open>task_notes\<close>), \<open>due\<close> and
  \<open>notified\<close> are \<open>None\<close> when the property is \<open>undefined\<close>. \<open>due\<close> holds the ISO text
  of a date, \<open>task_id\<close> is the field \<open>id\<close>.
\<close>

record task =
  task_id :: jsstring
  title :: jsstring
  task_notes :: "jsstring option"
  due :: "jsstring option"
  completed :: bool
  notified :: "bool option"
  createdAt :: jsstring

text \<open>
  \<open>Partial<Task>\<close>: every property may be missing (\<open>None\<close>). A property that is
  present overwrites the task's one when the record is spread over the task; a
  present optional property may hold \<open>undefined\<close> (\<open>Some None\<close>), as \<open>onSave\<close> passes
  for a cleared due date.
\<close>

record task_updates =
  u_id :: "jsstring option"
  u_title :: "jsstring option"
  u_notes :: "jsstring option option"
  u_due :: "jsstring option option"
  u_completed :: "bool option"
  u_notified :: "bool option option"
  u_createdAt :: "jsstring option"

datatype exn = RangeError | TypeError | SyntaxError | DOMException


section \<open>Dates and the other built-ins of the host\<close>

text \<open>
  A \<open>Date\<close> object is its time value in milliseconds, \<open>None\<close> for an invalid date
  (time value \<open>NaN\<close>). The built-ins the program calls are parameters:
  \<^item> \<open>Date_parse s\<close> is the time value of \<open>new Date(s)\<close>;
  \<^item> \<open>iso_text ms\<close> is the text \<open>toISOString\<close> gives for a valid time value;
  \<^item> \<open>getFullYear\<close>, \<open>getMonth\<close>, \<open>getDate\<close> read a valid time value in the local
    time zone;
  \<^item> \<open>toLowerCase\<close> is \<open>String.prototype.toLowerCase\<close>.
\<close>

record host =
  Date_parse :: "jsstring \<Rightarrow> int option"
  iso_text :: "int \<Rightarrow> jsstring"
  getFullYear :: "int \<Rightarrow> int"
  getMonth :: "int \<Rightarrow> int"
  getDate :: "int \<Rightarrow> int"
  toLowerCase :: "jsstring \<Rightarrow> jsstring"

text \<open>\<open>d.toISOString()\<close> throws a \<open>RangeError\<close> on an invalid date.\<close>

definition toISOString :: "host \<Rightarrow> int option \<Rightarrow> exn + jsstring" where
  "toISOString H d = (case d of None \<Rightarrow> Inl RangeError | Some ms \<Rightarrow> Inr (iso_text H ms))"


section \<open>Task model and mutators\<close>

text \<open>
  Each mutator is the function the source hands to \<open>setTasks\<close>: from the previous
  snapshot to the next one. A handler that throws before it reaches \<open>setTasks\<close>
  returns \<open>Inl\<close> and leaves the snapshot as it was.
\<close>

text \<open>
  \<open>uid()\<close>, from the decimal text of \<open>Date.now()\<close> and the random characters (at most
  six).
\<close>

definition uid :: "jsstring \<Rightarrow> jsstring \<Rightarrow> jsstring" where
  "uid now_text rnd = now_text @ ascii ''_'' @ rnd"

text \<open>
  The submitted form: each of \<open>fd.get('title')\<close>, \<open>fd.get('notes')\<close>, \<open>fd.get('due')\<close>
  is a string or \<open>null\<close>.
\<close>

record draft =
  d_title :: "jsstring option"
  d_notes :: "jsstring option"
  d_due :: "jsstring option"

definition or_empty :: "jsstring option \<Rightarrow> jsstring" where
  "or_empty x = (case x of None \<Rightarrow> [] | Some s \<Rightarrow> s)"

text \<open>
  \<open>addTask\<close>. \<open>now_text\<close> and \<open>rnd\<close> are what \<open>uid()\<close> reads, and \<open>now\<close> is the clock
  read for \<open>createdAt\<close>.
\<close>

definition addTask ::
    "host \<Rightarrow> jsstring \<Rightarrow> jsstring \<Rightarrow> int \<Rightarrow> draft \<Rightarrow> task list \<Rightarrow> exn + task list" where
  "addTask H now_text rnd now d prev =
     (let ttl = trim (or_empty (d_title d));
          nts = trim (or_empty (d_notes d));
          dueStr = trim (or_empty (d_due d))
      in if ttl = [] then Inr prev
         else
           (case (if dueStr \<noteq> [] then map_sum (\<lambda>e. e) Some (toISOString H (Date_parse H dueStr))
                  else Inr None) of
              Inl e \<Rightarrow> Inl e
            | Inr dueISO \<Rightarrow>
                Inr (\<lparr>task_id = uid now_text rnd, title = ttl, task_notes = or_undefined nts, due = dueISO,
                      completed = False, notified = Some False,
                      createdAt = iso_text H now\<rparr> # prev)))"

definition toggleComplete :: "jsstring \<Rightarrow> task list \<Rightarrow> task list" where
  "toggleComplete i prev = map (\<lambda>t. if task_id t = i then t\<lparr>completed := \<not> completed t\<rparr> else t) prev"

definition removeTask :: "jsstring \<Rightarrow> task list \<Rightarrow> task list" where
  "removeTask i prev = filter (\<lambda>t. task_id t \<noteq> i) prev"

text \<open>\<open>{ ...t, ...updates }\<close>.\<close>

definition spread :: "task \<Rightarrow> task_updates \<Rightarrow> task" where
  "spread t u =
     \<lparr>task_id = (case u_id u of None \<Rightarrow> task_id t | Some v \<Rightarrow> v),
      title = (case u_title u of None \<Rightarrow> title t | Some v \<Rightarrow> v),
      task_notes = (case u_notes u of None \<Rightarrow> task_notes t | Some v \<Rightarrow> v),
      due = (case u_due u of None \<Rightarrow> due t | Some v \<Rightarrow> v),
      completed = (case u_completed u of None \<Rightarrow> completed t | Some v \<Rightarrow> v),
      notified = (case u_notified u of None \<Rightarrow> notified t | Some v \<Rightarrow> v),
      createdAt = (case u_createdAt u of None \<Rightarrow> createdAt t | Some v \<Rightarrow> v)\<rparr>"

definition saveEdit :: "jsstring \<Rightarrow> task_updates \<Rightarrow> task list \<Rightarrow> task list" where
  "saveEdit i updates prev = map (\<lambda>t. if task_id t = i then spread t updates else t) prev"

text \<open>
  \<open>EditInline.onSave\<close> for the task \<open>t\<close> being edited; \<open>ttl\<close>, \<open>nts\<close> and \<open>dd\<close> are the
  form's state (\<open>dd = None\<close> when no date is chosen).
\<close>

definition onSave :: "host \<Rightarrow> task \<Rightarrow> jsstring \<Rightarrow> jsstring \<Rightarrow> int option option \<Rightarrow> task list
    \<Rightarrow> exn + task list" where
  "onSave H t ttl nts dd prev =
     (case (case dd of None \<Rightarrow> Inr None | Some d \<Rightarrow> map_sum (\<lambda>e. e) Some (toISOString H d)) of
        Inl e \<Rightarrow> Inl e
      | Inr dueISO \<Rightarrow>
          Inr (saveEdit (task_id t)
                 \<lparr>u_id = None,
                  u_title = Some (if trim ttl = [] then title t else trim ttl),
                  u_notes = Some (or_undefined (trim nts)),
                  u_due = Some dueISO,
                  u_completed = None,
                  u_notified = Some (Some False),
                  u_createdAt = None\<rparr> prev))"


section \<open>Notification gateway\<close>

datatype NotificationPermission = perm_default | granted | denied

record notification_options =
  body :: jsstring
  tag :: jsstring
  requireInteraction :: bool

text \<open>
  The notification surface of the runtime, over a platform state \<open>'w\<close> that every
  call may read and change:
  \<^item> \<open>Notification_in_window\<close> is the test \<open>'Notification' in window\<close>;
  \<^item> \<open>Notification_permission\<close> reads \<open>Notification.permission\<close>;
  \<^item> \<open>requestPermission\<close> is the awaited \<open>Notification.requestPermission()\<close>, which
    resolves to a permission or rejects;
  \<^item> \<open>new_Notification\<close> is the constructor call, which returns or throws.
\<close>

record 'w notifications =
  Notification_in_window :: "'w \<Rightarrow> bool"
  Notification_permission :: "'w \<Rightarrow> NotificationPermission"
  requestPermission :: "'w \<Rightarrow> (exn + NotificationPermission) \<times> 'w"
  new_Notification :: "'w \<Rightarrow> jsstring \<Rightarrow> notification_options \<Rightarrow> (exn + unit) \<times> 'w"

definition ensureNotificationPermission ::
    "'w notifications \<Rightarrow> 'w \<Rightarrow> NotificationPermission \<times> 'w" where
  "ensureNotificationPermission P w =
     (if \<not> Notification_in_window P w then (denied, w)
      else if Notification_permission P w = granted then (granted, w)
      else if Notification_permission P w \<noteq> denied then
        (case requestPermission P w of
           (Inr p, w') \<Rightarrow> (p, w')
         | (Inl e, w') \<Rightarrow> (denied, w'))
      else (Notification_permission P w, w))"

text \<open>
  The results the specification names for \<open>ensurePermission\<close>, and the reading of a
  value of the source's result type as one of them.
\<close>

datatype permission_outcome =
  outcome_default | outcome_granted | outcome_denied | outcome_unsupported

fun outcome :: "NotificationPermission \<Rightarrow> permission_outcome" where
  "outcome perm_default = outcome_default"
| "outcome granted = outcome_granted"
| "outcome denied = outcome_denied"

definition notifyTask :: "'w notifications \<Rightarrow> 'w \<Rightarrow> task \<Rightarrow> bool \<times> 'w" where
  "notifyTask P w t =
     (if \<not> Notification_in_window P w then (False, w)
      else if Notification_permission P w \<noteq> granted then (False, w)
      else
        (case new_Notification P w (ascii ''Reminder: '' @ title t)
                \<lparr>body = (if truthy_str (task_notes t) then or_empty (task_notes t)
                          else ascii ''Tap to open and mark complete''),
                 tag = task_id t,
                 requireInteraction = True\<rparr> of
           (Inr n, w') \<Rightarrow> (True, w')
         | (Inl e, w') \<Rightarrow> (False, w')))"


section \<open>Reminder scheduler\<close>

text \<open>\<open>new Date(t.due).getTime()\<close>; \<open>None\<close> is \<open>NaN\<close>.\<close>

definition getTime_due :: "host \<Rightarrow> task \<Rightarrow> int option" where
  "getTime_due H t = (case due t of None \<Rightarrow> None | Some s \<Rightarrow> Date_parse H s)"

text \<open>
  The callback of \<open>prev.map\<close> in the interval handler, for the clock value \<open>now\<close>. It
  returns the task of the next snapshot, whether it set \<open>changed\<close>, and the platform
  state it leaves. A comparison with \<open>NaN\<close> is false.
\<close>

definition tick_task :: "host \<Rightarrow> 'w notifications \<Rightarrow> int \<Rightarrow> 'w \<Rightarrow> task \<Rightarrow> (task \<times> bool) \<times> 'w" where
  "tick_task H P now w t =
     (if \<not> truthy_str (due t) \<or> completed t \<or> truthy_bool (notified t) then ((t, False), w)
      else
        (case getTime_due H t of
           None \<Rightarrow> ((t, False), w)
         | Some dueTs \<Rightarrow>
             if dueTs \<le> now then
               (case notifyTask P w t of
                  (sent, w') \<Rightarrow>
                    if sent then ((t\<lparr>notified := Some True\<rparr>, True), w') else ((t, False), w'))
             else ((t, False), w)))"

text \<open>\<open>prev.map(...)\<close>, left to right, with the flag \<open>changed\<close>.\<close>

fun tick_map :: "host \<Rightarrow> 'w notifications \<Rightarrow> int \<Rightarrow> 'w \<Rightarrow> task list \<Rightarrow> (task list \<times> bool) \<times> 'w" where
  "tick_map H P now w [] = (([], False), w)"
| "tick_map H P now w (t # ts) =
     (case tick_task H P now w t of
        ((t', c), w1) \<Rightarrow>
          (case tick_map H P now w1 ts of
             ((ts', c'), w2) \<Rightarrow> ((t' # ts', c \<or> c'), w2)))"

text \<open>
  One tick: \<open>changed ? next : prev\<close>. The flag says whether \<open>setTasks\<close> received a new
  array; the effect that calls \<open>saveTasks\<close> runs only then, so the flag is also
  whether the tick writes the store.
\<close>

definition tick :: "host \<Rightarrow> 'w notifications \<Rightarrow> int \<Rightarrow> 'w \<Rightarrow> task list \<Rightarrow> (task list \<times> bool) \<times> 'w" where
  "tick H P now w prev =
     (case tick_map H P now w prev of
        ((next, changed), w') \<Rightarrow> ((if changed then next else prev, changed), w'))"

text \<open>
  The interval timer: one tick for each pair of a clock value and the platform state
  found at that moment.
\<close>

fun ticks :: "host \<Rightarrow> 'w notifications \<Rightarrow> task list \<Rightarrow> (int \<times> 'w) list \<Rightarrow> task list" where
  "ticks H P prev [] = prev"
| "ticks H P prev ((now, w) # rest) = ticks H P (fst (fst (tick H P now w prev))) rest"

text \<open>
  Eligible, in the words of the specification: due set, not completed, not notified,
  and \<open>due \<le> now\<close>.
\<close>

definition eligible :: "host \<Rightarrow> int \<Rightarrow> task \<Rightarrow> bool" where
  "eligible H now t =
     (truthy_str (due t) \<and> \<not> completed t \<and> \<not> truthy_bool (notified t)
      \<and> (case getTime_due H t of None \<Rightarrow> False | Some dueTs \<Rightarrow> dueTs \<le> now))"

text \<open>
  The dispatch attempts of one tick, in order, each with what \<open>notifyTask\<close> reported;
  and the platform state in which the task at position \<open>i\<close> is reached.
\<close>

fun dispatches :: "host \<Rightarrow> 'w notifications \<Rightarrow> int \<Rightarrow> 'w \<Rightarrow> task list \<Rightarrow> (task \<times> bool) list" where
  "dispatches H P now w [] = []"
| "dispatches H P now w (t # ts) =
     (if eligible H now t then (t, fst (notifyTask P w t)) # dispatches H P now (snd (notifyTask P w t)) ts
      else dispatches H P now w ts)"

definition platform_at :: "host \<Rightarrow> 'w notifications \<Rightarrow> int \<Rightarrow> 'w \<Rightarrow> task list \<Rightarrow> nat \<Rightarrow> 'w" where
  "platform_at H P now w prev i = snd (tick_map H P now w (take i prev))"


section \<open>View projector\<close>

datatype tab = tab_today | tab_all

datatype filter_sel = filter_pending | filter_completed | filter_all

text \<open>
  \<open>isToday(d)\<close>, where \<open>now\<close> is the clock that \<open>new Date()\<close> reads. \<open>d = None\<close> is
  \<open>undefined\<close>; for an invalid date every getter gives \<open>NaN\<close>, which equals nothing.
\<close>

definition isToday :: "host \<Rightarrow> int \<Rightarrow> int option option \<Rightarrow> bool" where
  "isToday H now d =
     (case d of
        None \<Rightarrow> False
      | Some None \<Rightarrow> False
      | Some (Some ms) \<Rightarrow>
          getFullYear H ms = getFullYear H now \<and> getMonth H ms = getMonth H now
          \<and> getDate H ms = getDate H now)"

text \<open>\<open>t.due ? new Date(t.due) : undefined\<close>.\<close>

definition due_Date :: "host \<Rightarrow> task \<Rightarrow> int option option" where
  "due_Date H t = (if truthy_str (due t) then Some (getTime_due H t) else None)"

text \<open>One pass of the filter reads the clock at one value \<open>now\<close>.\<close>

definition todayList :: "host \<Rightarrow> int \<Rightarrow> task list \<Rightarrow> task list" where
  "todayList H now tasks = filter (\<lambda>t. isToday H now (due_Date H t)) tasks"

text \<open>
  The comparison function of the sort; \<open>None\<close> is the result \<open>NaN\<close>. Time values are
  whole numbers of milliseconds, and the sort reads only the sign of their difference.
\<close>

definition compare_due :: "host \<Rightarrow> task \<Rightarrow> task \<Rightarrow> int option" where
  "compare_due H a b =
     (if \<not> truthy_str (due a) \<and> \<not> truthy_str (due b) then Some 0
      else if \<not> truthy_str (due a) then Some 1
      else if \<not> truthy_str (due b) then Some (- 1)
      else (case (getTime_due H a, getTime_due H b) of
              (Some x, Some y) \<Rightarrow> Some (x - y)
            | _ \<Rightarrow> None))"

text \<open>
  \<open>Array.prototype.sort\<close> with a comparison function: a stable sort, in which \<open>a\<close> is
  placed after \<open>b\<close> only when the comparison of \<open>a\<close> with \<open>b\<close> is positive (\<open>NaN\<close>
  counts as \<open>0\<close>). Written as a stable insertion sort.
\<close>

definition placed_after :: "('a \<Rightarrow> 'a \<Rightarrow> int option) \<Rightarrow> 'a \<Rightarrow> 'a \<Rightarrow> bool" where
  "placed_after c a b = (case c a b of None \<Rightarrow> False | Some v \<Rightarrow> 0 < v)"

fun insert_sorted :: "('a \<Rightarrow> 'a \<Rightarrow> int option) \<Rightarrow> 'a \<Rightarrow> 'a list \<Rightarrow> 'a list" where
  "insert_sorted c x [] = [x]"
| "insert_sorted c x (y # ys) =
     (if placed_after c x y then y # insert_sorted c x ys else x # y # ys)"

definition Array_sort :: "('a \<Rightarrow> 'a \<Rightarrow> int option) \<Rightarrow> 'a list \<Rightarrow> 'a list" where
  "Array_sort c xs = foldr (insert_sorted c) xs []"

text \<open>The list of \<open>visible\<close> before the sort, and \<open>visible\<close>.\<close>

definition visible_unsorted ::
    "host \<Rightarrow> int \<Rightarrow> task list \<Rightarrow> tab \<Rightarrow> filter_sel \<Rightarrow> jsstring \<Rightarrow> task list" where
  "visible_unsorted H now tasks tb fl query =
     (let l0 = (if tb = tab_today then todayList H now tasks else tasks);
          l1 = (if fl = filter_pending then filter (\<lambda>t. \<not> completed t) l0 else l0);
          l2 = (if fl = filter_completed then filter (\<lambda>t. completed t) l1 else l1);
          l3 = (if trim query \<noteq> []
                then filter (\<lambda>t. includes_str (toLowerCase H (title t)) (toLowerCase H query)) l2
                else l2)
      in l3)"

definition visible :: "host \<Rightarrow> int \<Rightarrow> task list \<Rightarrow> tab \<Rightarrow> filter_sel \<Rightarrow> jsstring \<Rightarrow> task list" where
  "visible H now tasks tb fl query =
     Array_sort (compare_due H) (visible_unsorted H now tasks tb fl query)"


section \<open>Task store\<close>

text \<open>
  \<open>QuoteJSONString\<close>, as \<open>JSON.stringify\<close> writes a string. A code unit below
  U+0020 or a lone surrogate is written \<open>\uXXXX\<close> with lower-case hex digits, unless
  it has a short escape; a high surrogate followed by a low one is a pair and is
  written as it is.
\<close>

definition hex_char :: "nat \<Rightarrow> 16 word" where
  "hex_char d = of_nat (if d < 10 then 48 + d else 87 + d)"

definition hex_val :: "16 word \<Rightarrow> nat option" where
  "hex_val h =
     (let n = unat h in
      if 48 \<le> n \<and> n \<le> 57 then Some (n - 48)
      else if 97 \<le> n \<and> n \<le> 102 then Some (n - 87)
      else if 65 \<le> n \<and> n \<le> 70 then Some (n - 55)
      else None)"

definition unicode_escape :: "16 word \<Rightarrow> jsstring" where
  "unicode_escape c =
     [0x5C, 0x75, hex_char (unat c div 4096 mod 16), hex_char (unat c div 256 mod 16),
      hex_char (unat c div 16 mod 16), hex_char (unat c mod 16)]"

definition hex4 :: "16 word \<Rightarrow> 16 word \<Rightarrow> 16 word \<Rightarrow> 16 word \<Rightarrow> 16 word option" where
  "hex4 a b c d =
     (case (hex_val a, hex_val b, hex_val c, hex_val d) of
        (Some x3, Some x2, Some x1, Some x0) \<Rightarrow> Some (of_nat (((x3 * 16 + x2) * 16 + x1) * 16 + x0))
      | _ \<Rightarrow> None)"

definition is_high :: "16 word \<Rightarrow> bool" where
  "is_high c = (0xD800 \<le> unat c \<and> unat c \<le> 0xDBFF)"

definition is_low :: "16 word \<Rightarrow> bool" where
  "is_low c = (0xDC00 \<le> unat c \<and> unat c \<le> 0xDFFF)"

definition quote_unit :: "16 word \<Rightarrow> jsstring" where
  "quote_unit c =
     (if c = 0x08 then [0x5C, 0x62]
      else if c = 0x09 then [0x5C, 0x74]
      else if c = 0x0A then [0x5C, 0x6E]
      else if c = 0x0C then [0x5C, 0x66]
      else if c = 0x0D then [0x5C, 0x72]
      else if c = 0x22 then [0x5C, 0x22]
      else if c = 0x5C then [0x5C, 0x5C]
      else if unat c < 0x20 \<or> is_high c \<or> is_low c then unicode_escape c
      else [c])"

fun quote_chars :: "jsstring \<Rightarrow> jsstring" where
  "quote_chars [] = []"
| "quote_chars [c] = quote_unit c"
| "quote_chars (c # d # ds) =
     (if is_high c \<and> is_low d then c # d # quote_chars ds
      else quote_unit c @ quote_chars (d # ds))"

definition QuoteJSONString :: "jsstring \<Rightarrow> jsstring" where
  "QuoteJSONString s = 0x22 # quote_chars s @ [0x22]"

text \<open>
  The string grammar of \<open>JSON.parse\<close>, read after the opening quote: the text up to
  the closing quote, and what follows it. A code unit below U+0020 must be escaped;
  hex digits may be in either case.
\<close>

definition unescape :: "16 word \<Rightarrow> 16 word option" where
  "unescape e =
     (if e = 0x22 then Some 0x22
      else if e = 0x5C then Some 0x5C
      else if e = 0x2F then Some 0x2F
      else if e = 0x62 then Some 0x08
      else if e = 0x66 then Some 0x0C
      else if e = 0x6E then Some 0x0A
      else if e = 0x72 then Some 0x0D
      else if e = 0x74 then Some 0x09
      else None)"

definition cons_char :: "16 word \<Rightarrow> (jsstring \<times> jsstring) option \<Rightarrow> (jsstring \<times> jsstring) option" where
  "cons_char c r = (case r of None \<Rightarrow> None | Some (s, rest) \<Rightarrow> Some (c # s, rest))"

fun lex_string :: "jsstring \<Rightarrow> (jsstring \<times> jsstring) option" where
  "lex_string [] = None"
| "lex_string (c # cs) =
     (if c = 0x22 then Some ([], cs)
      else if c = 0x5C then
        (case cs of
           [] \<Rightarrow> None
         | e # es \<Rightarrow>
             if e = 0x75 then
               (case es of
                  h1 # h2 # h3 # h4 # rest \<Rightarrow>
                    (case hex4 h1 h2 h3 h4 of
                       None \<Rightarrow> None
                     | Some u \<Rightarrow> cons_char u (lex_string rest))
                | _ \<Rightarrow> None)
             else
               (case unescape e of
                  None \<Rightarrow> None
                | Some u \<Rightarrow> cons_char u (lex_string es)))
      else if unat c < 0x20 then None
      else cons_char c (lex_string cs))"

text \<open>The tokens of a JSON text. A number token keeps the text of the literal.\<close>

datatype token =
  T_LBrace | T_RBrace | T_LBracket | T_RBracket | T_Colon | T_Comma
  | T_String jsstring | T_Number jsstring | T_True | T_False | T_Null

definition is_digit :: "16 word \<Rightarrow> bool" where
  "is_digit c = (0x30 \<le> unat c \<and> unat c \<le> 0x39)"

definition is_json_ws :: "16 word \<Rightarrow> bool" where
  "is_json_ws c = (c = 0x20 \<or> c = 0x09 \<or> c = 0x0A \<or> c = 0x0D)"

text \<open>
  The number grammar: an optional minus sign, \<open>0\<close> or a digit sequence without a
  leading zero, an optional fraction, an optional exponent.
\<close>

definition lex_digits :: "jsstring \<Rightarrow> (jsstring \<times> jsstring) option" where
  "lex_digits cs =
     (if takeWhile is_digit cs = [] then None
      else Some (takeWhile is_digit cs, dropWhile is_digit cs))"

definition lex_int :: "jsstring \<Rightarrow> (jsstring \<times> jsstring) option" where
  "lex_int cs =
     (case cs of
        [] \<Rightarrow> None
      | d # r \<Rightarrow>
          if d = 0x30 then Some ([d], r)
          else if is_digit d then Some (d # takeWhile is_digit r, dropWhile is_digit r)
          else None)"

definition lex_frac :: "jsstring \<Rightarrow> (jsstring \<times> jsstring) option" where
  "lex_frac cs =
     (case cs of
        [] \<Rightarrow> Some ([], [])
      | c # r \<Rightarrow>
          if c = 0x2E then
            (case lex_digits r of None \<Rightarrow> None | Some (ds, r') \<Rightarrow> Some (c # ds, r'))
          else Some ([], cs))"

definition lex_exp :: "jsstring \<Rightarrow> (jsstring \<times> jsstring) option" where
  "lex_exp cs =
     (case cs of
        [] \<Rightarrow> Some ([], [])
      | c # r \<Rightarrow>
          if c = 0x65 \<or> c = 0x45 then
            (case r of
               [] \<Rightarrow> None
             | s # r2 \<Rightarrow>
                 if s = 0x2B \<or> s = 0x2D then
                   (case lex_digits r2 of None \<Rightarrow> None | Some (ds, r') \<Rightarrow> Some (c # s # ds, r'))
                 else
                   (case lex_digits r of None \<Rightarrow> None | Some (ds, r') \<Rightarrow> Some (c # ds, r')))
          else Some ([], cs))"

definition lex_number :: "jsstring \<Rightarrow> (jsstring \<times> jsstring) option" where
  "lex_number cs =
     (case (case cs of [] \<Rightarrow> ([], []) | c # r \<Rightarrow> if c = 0x2D then ([c], r) else ([], cs)) of
        (sg, r0) \<Rightarrow>
          (case lex_int r0 of
             None \<Rightarrow> None
           | Some (ip, r1) \<Rightarrow>
               (case lex_frac r1 of
                  None \<Rightarrow> None
                | Some (fp, r2) \<Rightarrow>
                    (case lex_exp r2 of
                       None \<Rightarrow> None
                     | Some (ep, r3) \<Rightarrow> Some (sg @ ip @ fp @ ep, r3)))))"

definition cons_tok :: "token \<Rightarrow> token list option \<Rightarrow> token list option" where
  "cons_tok t r = (case r of None \<Rightarrow> None | Some ts \<Rightarrow> Some (t # ts))"

text \<open>Every lexer of a token consumes input, so the tokenizer terminates.\<close>

lemma lex_string_length: "lex_string cs = Some (s, rest) \<Longrightarrow> length rest < length cs"
proof (induction "length cs" arbitrary: cs s rest rule: less_induct)
  case less
  note IH = less.hyps[rotated]
  show ?case
  proof (cases cs)
    case Nil
    with less.prems show ?thesis by simp
  next
    case (Cons c cs')
    with less.prems show ?thesis
      by (auto simp: cons_char_def split: if_splits list.splits option.splits prod.splits
          dest!: IH)
  qed
qed

lemma lex_digits_length: "lex_digits cs = Some (ds, rest) \<Longrightarrow> length rest \<le> length cs"
  by (auto simp: lex_digits_def length_dropWhile_le split: if_splits)

lemma lex_int_length: "lex_int cs = Some (ds, rest) \<Longrightarrow> length rest < length cs"
  by (auto simp: lex_int_def length_dropWhile_le less_Suc_eq_le split: if_splits list.splits)

lemma lex_frac_length: "lex_frac cs = Some (ds, rest) \<Longrightarrow> length rest \<le> length cs"
  by (auto simp: lex_frac_def split: if_splits list.splits option.splits dest!: lex_digits_length)

lemma lex_exp_length: "lex_exp cs = Some (ds, rest) \<Longrightarrow> length rest \<le> length cs"
  by (auto simp: lex_exp_def split: if_splits list.splits option.splits dest!: lex_digits_length)

lemma lex_number_length: "lex_number cs = Some (n, rest) \<Longrightarrow> length rest < length cs"
  by (auto simp: lex_number_def split: if_splits list.splits option.splits prod.splits
      dest!: lex_int_length lex_frac_length lex_exp_length)

text \<open>
  The tokenizer. White space between tokens is space, tab, line feed and carriage
  return. \<open>None\<close> is a \<open>SyntaxError\<close>.
\<close>

function tokens :: "jsstring \<Rightarrow> token list option" where
  "tokens [] = Some []"
| "tokens (c # cs) =
     (if is_json_ws c then tokens cs
      else if c = 0x7B then cons_tok T_LBrace (tokens cs)
      else if c = 0x7D then cons_tok T_RBrace (tokens cs)
      else if c = 0x5B then cons_tok T_LBracket (tokens cs)
      else if c = 0x5D then cons_tok T_RBracket (tokens cs)
      else if c = 0x3A then cons_tok T_Colon (tokens cs)
      else if c = 0x2C then cons_tok T_Comma (tokens cs)
      else if c = 0x22 then
        (case lex_string cs of
           None \<Rightarrow> None
         | Some (s, rest) \<Rightarrow> cons_tok (T_String s) (tokens rest))
      else if c = 0x2D \<or> is_digit c then
        (case lex_number (c # cs) of
           None \<Rightarrow> None
         | Some (n, rest) \<Rightarrow> cons_tok (T_Number n) (tokens rest))
      else if startsWith (c # cs) (ascii ''true'') then cons_tok T_True (tokens (drop 3 cs))
      else if startsWith (c # cs) (ascii ''false'') then cons_tok T_False (tokens (drop 4 cs))
      else if startsWith (c # cs) (ascii ''null'') then cons_tok T_Null (tokens (drop 3 cs))
      else None)"
  by pat_completeness auto
termination
proof (relation "measure length")
  show "wf (measure length)" by simp
next
  fix c cs x2 x y
  assume "lex_string cs = Some x2" "(x, y) = x2"
  then have "lex_string cs = Some (x, y)" by simp
  from lex_string_length[OF this] show "(y, c # cs) \<in> measure length" by simp
next
  fix c cs x2 x y
  assume "lex_number (c # cs) = Some x2" "(x, y) = x2"
  then have "lex_number (c # cs) = Some (x, y)" by simp
  from lex_number_length[OF this] show "(y, c # cs) \<in> measure length" by simp
qed simp_all

text \<open>
  The values \<open>JSON.parse\<close> returns. A number keeps the text of its literal (the
  program reads no number); an object holds its properties in the order they were
  created.
\<close>

datatype json =
  JNull | JBool bool | JNumber jsstring | JString jsstring
  | JArray "json list" | JObject "(jsstring \<times> json) list"

text \<open>
  The parser reads the tokens from left to right with a stack of the arrays and
  objects that are open: \<open>F_Array\<close> holds the elements read so far, last first,
  \<open>F_Object\<close> the properties read so far, and \<open>F_Member\<close> also the key whose value is
  being read. The control state says what may come next.
\<close>

datatype frame =
  F_Array "json list"
  | F_Object "(jsstring \<times> json) list"
  | F_Member "(jsstring \<times> json) list" jsstring

datatype ctl =
  ExpValue | ExpValueOrEnd | ExpKeyOrEnd | ExpKey | ExpColon jsstring | AfterValue | Done json

text \<open>
  Defining a property of an object: a key that is there keeps its place and takes the
  new value (so the last duplicate of a key wins), a new key goes to the end.
\<close>

fun set_prop :: "(jsstring \<times> json) list \<Rightarrow> jsstring \<Rightarrow> json \<Rightarrow> (jsstring \<times> json) list" where
  "set_prop [] k v = [(k, v)]"
| "set_prop ((k', v') # ms) k v = (if k' = k then (k, v) # ms else (k', v') # set_prop ms k v)"

text \<open>A value is complete: it goes to the array or object that is open, or it is the result.\<close>

fun reduce :: "json \<Rightarrow> frame list \<Rightarrow> (ctl \<times> frame list) option" where
  "reduce v [] = Some (Done v, [])"
| "reduce v (F_Array acc # S) = Some (AfterValue, F_Array (v # acc) # S)"
| "reduce v (F_Member ms k # S) = Some (AfterValue, F_Object (set_prop ms k v) # S)"
| "reduce v (F_Object ms # S) = None"

fun close_array :: "frame list \<Rightarrow> (ctl \<times> frame list) option" where
  "close_array (F_Array acc # S) = reduce (JArray (rev acc)) S"
| "close_array S = None"

fun close_object :: "frame list \<Rightarrow> (ctl \<times> frame list) option" where
  "close_object (F_Object ms # S) = reduce (JObject ms) S"
| "close_object S = None"

fun start_value :: "token \<Rightarrow> frame list \<Rightarrow> (ctl \<times> frame list) option" where
  "start_value (T_String s) S = reduce (JString s) S"
| "start_value (T_Number n) S = reduce (JNumber n) S"
| "start_value T_True S = reduce (JBool True) S"
| "start_value T_False S = reduce (JBool False) S"
| "start_value T_Null S = reduce JNull S"
| "start_value T_LBracket S = Some (ExpValueOrEnd, F_Array [] # S)"
| "start_value T_LBrace S = Some (ExpKeyOrEnd, F_Object [] # S)"
| "start_value T_RBrace S = None"
| "start_value T_RBracket S = None"
| "start_value T_Colon S = None"
| "start_value T_Comma S = None"

fun begin_member :: "jsstring \<Rightarrow> frame list \<Rightarrow> (ctl \<times> frame list) option" where
  "begin_member k (F_Object ms # S) = Some (ExpValue, F_Member ms k # S)"
| "begin_member k S = None"

fun after_comma :: "frame list \<Rightarrow> (ctl \<times> frame list) option" where
  "after_comma (F_Array acc # S) = Some (ExpValue, F_Array acc # S)"
| "after_comma (F_Object ms # S) = Some (ExpKey, F_Object ms # S)"
| "after_comma S = None"

fun step :: "ctl \<Rightarrow> frame list \<Rightarrow> token \<Rightarrow> (ctl \<times> frame list) option" where
  "step ExpValue S t = start_value t S"
| "step ExpValueOrEnd S t = (if t = T_RBracket then close_array S else start_value t S)"
| "step ExpKeyOrEnd S t =
     (case t of T_RBrace \<Rightarrow> close_object S | T_String k \<Rightarrow> Some (ExpColon k, S) | _ \<Rightarrow> None)"
| "step ExpKey S t = (case t of T_String k \<Rightarrow> Some (ExpColon k, S) | _ \<Rightarrow> None)"
| "step (ExpColon k) S t = (if t = T_Colon then begin_member k S else None)"
| "step AfterValue S t =
     (case t of
        T_Comma \<Rightarrow> after_comma S
      | T_RBracket \<Rightarrow> close_array S
      | T_RBrace \<Rightarrow> close_object S
      | _ \<Rightarrow> None)"
| "step (Done v) S t = None"

fun run :: "token list \<Rightarrow> (ctl \<times> frame list) option \<Rightarrow> (ctl \<times> frame list) option" where
  "run ts None = None"
| "run [] (Some st) = Some st"
| "run (t # ts) (Some (c, S)) = run ts (step c S t)"

text \<open>\<open>JSON.parse\<close>: one value, and nothing after it.\<close>

definition JSON_parse :: "jsstring \<Rightarrow> exn + json" where
  "JSON_parse text =
     (case tokens text of
        None \<Rightarrow> Inl SyntaxError
      | Some ts \<Rightarrow>
          (case run ts (Some (ExpValue, [])) of
             Some (Done v, S) \<Rightarrow> Inr v
           | _ \<Rightarrow> Inl SyntaxError))"

text \<open>
  \<open>JSON.stringify\<close> of a value, without indentation: the tokens of the value, each
  written out, with nothing between them.
\<close>

fun join_comma :: "token list list \<Rightarrow> token list" where
  "join_comma [] = []"
| "join_comma [x] = x"
| "join_comma (x # y # r) = x @ T_Comma # join_comma (y # r)"

fun toks_of :: "json \<Rightarrow> token list" where
  "toks_of JNull = [T_Null]"
| "toks_of (JBool b) = [if b then T_True else T_False]"
| "toks_of (JNumber n) = [T_Number n]"
| "toks_of (JString s) = [T_String s]"
| "toks_of (JArray xs) = T_LBracket # join_comma (map toks_of xs) @ [T_RBracket]"
| "toks_of (JObject ms) =
     T_LBrace # join_comma (map (\<lambda>m. T_String (fst m) # T_Colon # toks_of (snd m)) ms) @ [T_RBrace]"

fun print_token :: "token \<Rightarrow> jsstring" where
  "print_token T_LBrace = [0x7B]"
| "print_token T_RBrace = [0x7D]"
| "print_token T_LBracket = [0x5B]"
| "print_token T_RBracket = [0x5D]"
| "print_token T_Colon = [0x3A]"
| "print_token T_Comma = [0x2C]"
| "print_token (T_String s) = QuoteJSONString s"
| "print_token (T_Number n) = n"
| "print_token T_True = ascii ''true''"
| "print_token T_False = ascii ''false''"
| "print_token T_Null = ascii ''null''"

definition JSON_stringify :: "json \<Rightarrow> jsstring" where
  "JSON_stringify v = concat (map print_token (toks_of v))"

text \<open>
  The values the task list serializes to: no number, and no key twice in an object.
\<close>

fun plain :: "json \<Rightarrow> bool" where
  "plain JNull = True"
| "plain (JBool b) = True"
| "plain (JNumber n) = False"
| "plain (JString s) = True"
| "plain (JArray xs) = list_all plain xs"
| "plain (JObject ms) = (distinct (map fst ms) \<and> list_all (\<lambda>m. plain (snd m)) ms)"

text \<open>Notions the proofs about the parser are stated with.\<close>

fun is_number_token :: "token \<Rightarrow> bool" where
  "is_number_token (T_Number n) = True"
| "is_number_token t = False"

definition value_start :: "ctl \<Rightarrow> bool" where
  "value_start c = (c = ExpValue \<or> c = ExpValueOrEnd)"

definition key_start :: "ctl \<Rightarrow> bool" where
  "key_start c = (c = ExpKey \<or> c = ExpKeyOrEnd)"

definition member_toks :: "jsstring \<times> json \<Rightarrow> token list" where
  "member_toks m = T_String (fst m) # T_Colon # toks_of (snd m)"

definition parses :: "json \<Rightarrow> bool" where
  "parses v = (\<forall>c S. value_start c \<longrightarrow> run (toks_of v) (Some (c, S)) = reduce v S)"

definition add_member :: "(jsstring \<times> json) list \<Rightarrow> jsstring \<times> json \<Rightarrow> (jsstring \<times> json) list" where
  "add_member ms m = set_prop ms (fst m) (snd m)"

text \<open>
  The properties of a task object. \<open>JSON.stringify\<close> writes them in the order the
  object holds them, which depends on how the object was made, and leaves out a
  property whose value is \<open>undefined\<close>; so a task is serialized for a given order of
  its keys.
\<close>

datatype task_key = K_id | K_title | K_notes | K_due | K_completed | K_notified | K_createdAt

fun key_name :: "task_key \<Rightarrow> jsstring" where
  "key_name K_id = ascii ''id''"
| "key_name K_title = ascii ''title''"
| "key_name K_notes = ascii ''notes''"
| "key_name K_due = ascii ''due''"
| "key_name K_completed = ascii ''completed''"
| "key_name K_notified = ascii ''notified''"
| "key_name K_createdAt = ascii ''createdAt''"

fun prop_json :: "task \<Rightarrow> task_key \<Rightarrow> json option" where
  "prop_json t K_id = Some (JString (task_id t))"
| "prop_json t K_title = Some (JString (title t))"
| "prop_json t K_notes = map_option JString (task_notes t)"
| "prop_json t K_due = map_option JString (due t)"
| "prop_json t K_completed = Some (JBool (completed t))"
| "prop_json t K_notified = map_option JBool (notified t)"
| "prop_json t K_createdAt = Some (JString (createdAt t))"

fun members_of :: "task \<Rightarrow> task_key list \<Rightarrow> (jsstring \<times> json) list" where
  "members_of t [] = []"
| "members_of t (k # ks) =
     (case prop_json t k of
        None \<Rightarrow> members_of t ks
      | Some v \<Rightarrow> (key_name k, v) # members_of t ks)"

definition task_json :: "task_key list \<Rightarrow> task \<Rightarrow> json" where
  "task_json ord t = JObject (members_of t ord)"

text \<open>
  Reading a parsed value as a \<open>Task\<close>, as the cast \<open>const parsed: Task[]\<close> does for
  the rest of the program: defined when the value is an object whose properties have
  the types \<open>Task\<close> declares.
\<close>

definition req_string :: "json option \<Rightarrow> jsstring option" where
  "req_string x = (case x of Some (JString s) \<Rightarrow> Some s | _ \<Rightarrow> None)"

definition req_bool :: "json option \<Rightarrow> bool option" where
  "req_bool x = (case x of Some (JBool b) \<Rightarrow> Some b | _ \<Rightarrow> None)"

definition opt_string :: "json option \<Rightarrow> jsstring option option" where
  "opt_string x = (case x of None \<Rightarrow> Some None | Some (JString s) \<Rightarrow> Some (Some s) | _ \<Rightarrow> None)"

definition opt_bool :: "json option \<Rightarrow> bool option option" where
  "opt_bool x = (case x of None \<Rightarrow> Some None | Some (JBool b) \<Rightarrow> Some (Some b) | _ \<Rightarrow> None)"

definition get_prop :: "json \<Rightarrow> task_key \<Rightarrow> json option" where
  "get_prop j k = (case j of JObject ms \<Rightarrow> map_of ms (key_name k) | _ \<Rightarrow> None)"

definition is_object :: "json \<Rightarrow> bool" where
  "is_object j = (case j of JObject ms \<Rightarrow> True | _ \<Rightarrow> False)"

definition Task_of :: "json \<Rightarrow> task option" where
  "Task_of j =
     (if \<not> is_object j then None
      else
        (case req_string (get_prop j K_id) of None \<Rightarrow> None | Some i \<Rightarrow>
        (case req_string (get_prop j K_title) of None \<Rightarrow> None | Some ttl \<Rightarrow>
        (case opt_string (get_prop j K_notes) of None \<Rightarrow> None | Some nts \<Rightarrow>
        (case opt_string (get_prop j K_due) of None \<Rightarrow> None | Some d \<Rightarrow>
        (case req_bool (get_prop j K_completed) of None \<Rightarrow> None | Some c \<Rightarrow>
        (case opt_bool (get_prop j K_notified) of None \<Rightarrow> None | Some nf \<Rightarrow>
        (case req_string (get_prop j K_createdAt) of None \<Rightarrow> None | Some cr \<Rightarrow>
           Some \<lparr>task_id = i, title = ttl, task_notes = nts, due = d, completed = c,
                 notified = nf, createdAt = cr\<rparr>))))))))"

text \<open>
  \<open>{ ...t }\<close> on a parsed value: the own properties of an object; the elements of an
  array or the code units of a string under their indices; nothing for \<open>null\<close>, a
  boolean or a number.
\<close>

fun decimal :: "nat \<Rightarrow> jsstring" where
  "decimal n = (if n < 10 then [of_nat (48 + n)] else decimal (n div 10) @ [of_nat (48 + n mod 10)])"

fun index_members :: "nat \<Rightarrow> json list \<Rightarrow> (jsstring \<times> json) list" where
  "index_members i [] = []"
| "index_members i (x # xs) = (decimal i, x) # index_members (Suc i) xs"

definition spread_copy :: "json \<Rightarrow> json" where
  "spread_copy j =
     (case j of
        JObject ms \<Rightarrow> JObject ms
      | JArray xs \<Rightarrow> JObject (index_members 0 xs)
      | JString s \<Rightarrow> JObject (index_members 0 (map (\<lambda>c. JString [c]) s))
      | _ \<Rightarrow> JObject [])"

text \<open>\<open>parsed.map(t => ({ ...t }))\<close> throws unless \<open>parsed\<close> is an array.\<close>

definition map_copy :: "json \<Rightarrow> exn + json list" where
  "map_copy parsed = (case parsed of JArray xs \<Rightarrow> Inr (map spread_copy xs) | _ \<Rightarrow> Inl TypeError)"

text \<open>
  \<open>localStorage\<close>: the stored strings, whether every access throws (storage is
  disabled), and for which key and value \<open>setItem\<close> finds room.
\<close>

record localStorage =
  items :: "jsstring \<Rightarrow> jsstring option"
  blocked :: bool
  accepts :: "jsstring \<Rightarrow> jsstring \<Rightarrow> bool"

definition getItem :: "localStorage \<Rightarrow> jsstring \<Rightarrow> exn + jsstring option" where
  "getItem st k = (if blocked st then Inl DOMException else Inr (items st k))"

definition setItem :: "localStorage \<Rightarrow> jsstring \<Rightarrow> jsstring \<Rightarrow> exn + localStorage" where
  "setItem st k v =
     (if blocked st \<or> \<not> accepts st k v then Inl DOMException
      else Inr (st\<lparr>items := (items st)(k \<mapsto> v)\<rparr>))"

definition STORAGE_KEY :: jsstring where
  "STORAGE_KEY = ascii ''todo_mvp_tasks_v1''"

text \<open>
  \<open>loadTasks\<close>: the \<open>try\<close> block, with every exception caught. The result is the
  array of copies, still untyped.
\<close>

definition loadTasks :: "localStorage \<Rightarrow> json list" where
  "loadTasks st =
     (case getItem st STORAGE_KEY of
        Inl e \<Rightarrow> []
      | Inr None \<Rightarrow> []
      | Inr (Some raw) \<Rightarrow>
          if raw = [] then []
          else
            (case JSON_parse raw of
               Inl e \<Rightarrow> []
             | Inr parsed \<Rightarrow>
                 (case map_copy parsed of Inl e \<Rightarrow> [] | Inr copies \<Rightarrow> copies)))"

text \<open>
  \<open>saveTasks\<close>, where \<open>ord i\<close> is the order in which the object at position \<open>i\<close> holds
  its properties. An exception of \<open>setItem\<close> is not caught.
\<close>

definition tasks_json :: "(nat \<Rightarrow> task_key list) \<Rightarrow> task list \<Rightarrow> json" where
  "tasks_json ord tasks = JArray (map (\<lambda>(i, t). task_json (ord i) t) (enumerate 0 tasks))"

definition saveTasks :: "localStorage \<Rightarrow> (nat \<Rightarrow> task_key list) \<Rightarrow> task list \<Rightarrow> exn + localStorage" where
  "saveTasks st ord tasks = setItem st STORAGE_KEY (JSON_stringify (tasks_json ord tasks))"


section \<open>Orders the properties are stated in\<close>

text \<open>
  The key the sort compares by: tasks with a due date first, by their time, and the
  tasks without one after them, all equal.
\<close>

definition due_key :: "host \<Rightarrow> task \<Rightarrow> bool \<times> int" where
  "due_key H t =
     (if truthy_str (due t) then (False, (case getTime_due H t of None \<Rightarrow> 0 | Some x \<Rightarrow> x))
      else (True, 0))"

text \<open>
  \<open>a\<close> may stand before \<open>b\<close> in the sorted view: both have a due date and that of \<open>a\<close>
  is not later, or \<open>b\<close> has none.
\<close>

definition due_ordered :: "host \<Rightarrow> task \<Rightarrow> task \<Rightarrow> bool" where
  "due_ordered H a b =
     (if truthy_str (due a) \<and> truthy_str (due b) then
        (case (getTime_due H a, getTime_due H b) of (Some x, Some y) \<Rightarrow> x \<le> y | _ \<Rightarrow> False)
      else \<not> truthy_str (due b))"

text \<open>A due date that is set parses to a valid time.\<close>

definition due_valid :: "host \<Rightarrow> task \<Rightarrow> bool" where
  "due_valid H t = (truthy_str (due t) \<longrightarrow> getTime_due H t \<noteq> None)"

text \<open>Two clock values on the same local calendar day, as \<open>isToday\<close> compares them.\<close>

definition same_day :: "host \<Rightarrow> int \<Rightarrow> int \<Rightarrow> bool" where
  "same_day H a b =
     (getFullYear H a = getFullYear H b \<and> getMonth H a = getMonth H b \<and> getDate H a = getDate H b)"


section \<open>Sample values\<close>

text \<open>
  The values the examples below run on. The sample host knows the calendar of UTC for
  the first days of 1970 and the dates written in the examples; its lower-casing is
  that of ASCII. The state of the sample platform is whether the capability is
  present, the permission, and the number of alerts raised; \<open>absent_platform\<close> is a
  runtime without the capability.
\<close>

definition declared_order :: "task_key list" where
  "declared_order = [K_id, K_title, K_notes, K_due, K_completed, K_notified, K_createdAt]"

definition empty_storage :: localStorage where
  "empty_storage = \<lparr>items = (\<lambda>k. None), blocked = False, accepts = (\<lambda>k v. True)\<rparr>"

definition sample_parse :: "jsstring \<Rightarrow> int option" where
  "sample_parse s =
     (if s = ascii ''1970-01-01T00:00:00.000Z'' then Some 0
      else if s = ascii ''1970-01-01T00:01:00.000Z'' then Some 60000
      else if s = ascii ''1970-01-02T00:00:00.000Z'' then Some 86400000
      else None)"

definition sample_iso :: "int \<Rightarrow> jsstring" where
  "sample_iso ms =
     (if ms = 0 then ascii ''1970-01-01T00:00:00.000Z''
      else if ms = 60000 then ascii ''1970-01-01T00:01:00.000Z''
      else if ms = 86400000 then ascii ''1970-01-02T00:00:00.000Z''
      else ascii ''1970-01-03T00:00:00.000Z'')"

definition sample_lower :: "jsstring \<Rightarrow> jsstring" where
  "sample_lower s = map (\<lambda>c. if 0x41 \<le> c \<and> c \<le> 0x5A then c + 0x20 else c) s"

definition sample_host :: host where
  "sample_host =
     \<lparr>Date_parse = sample_parse, iso_text = sample_iso,
      getFullYear = (\<lambda>ms. 1970), getMonth = (\<lambda>ms. 0), getDate = (\<lambda>ms. 1 + ms div 86400000),
      toLowerCase = sample_lower\<rparr>"

definition sample_platform :: "((bool \<times> NotificationPermission) \<times> nat) notifications" where
  "sample_platform =
     \<lparr>Notification_in_window = (\<lambda>w. fst (fst w)),
      Notification_permission = (\<lambda>w. snd (fst w)),
      requestPermission = (\<lambda>w. (Inr granted, ((fst (fst w), granted), snd w))),
      new_Notification = (\<lambda>w ttl opts. (Inr (), (fst w, Suc (snd w))))\<rparr>"

definition absent_platform :: "nat notifications" where
  "absent_platform =
     \<lparr>Notification_in_window = (\<lambda>w. False),
      Notification_permission = (\<lambda>w. perm_default),
      requestPermission = (\<lambda>w. (Inl TypeError, w)),
      new_Notification = (\<lambda>w ttl opts. (Inl TypeError, w))\<rparr>"

definition pay_bill :: task where
  "pay_bill =
     \<lparr>task_id = ascii ''0_a1b2c3'', title = ascii ''Pay bill'', task_notes = None,
      due = Some (ascii ''1970-01-01T00:01:00.000Z''), completed = False, notified = Some False,
      createdAt = ascii ''1970-01-01T00:00:00.000Z''\<rparr>"

definition call_mum :: task where
  "call_mum =
     \<lparr>task_id = ascii ''2'', title = ascii ''Call mum'', task_notes = Some (ascii ''evening''),
      due = None, completed = False, notified = Some False,
      createdAt = ascii ''1970-01-01T00:00:00.000Z''\<rparr>"

definition water_plants :: task where
  "water_plants =
     \<lparr>task_id = ascii ''3'', title = ascii ''Water plants'', task_notes = None,
      due = Some (ascii ''1970-01-01T00:00:00.000Z''), completed = False, notified = Some True,
      createdAt = ascii ''1970-01-01T00:00:00.000Z''\<rparr>"

definition absent_state :: "(bool \<times> NotificationPermission) \<times> nat" where
  "absent_state = ((False, perm_default), 0)"

definition bill_draft :: draft where
  "bill_draft = \<lparr>d_title = Some (ascii '' Pay bill ''), d_notes = Some (ascii ''''),
                 d_due = Some (ascii ''1970-01-01T00:01:00.000Z'')\<rparr>"

definition bad_due_draft :: draft where
  "bad_due_draft = \<lparr>d_title = Some (ascii ''Pay bill''), d_notes = None, d_due = Some (ascii ''x'')\<rparr>"

definition new_due_only :: task_updates where
  "new_due_only = \<lparr>u_id = None, u_title = None, u_notes = None,
     u_due = Some (Some (ascii ''1970-01-02T00:00:00.000Z'')),
     u_completed = None, u_notified = None, u_createdAt = None\<rparr>"

definition tomorrow_task :: task where
  "tomorrow_task =
     \<lparr>task_id = ascii ''4'', title = ascii ''Renew pass'', task_notes = None,
      due = Some (ascii ''1970-01-02T00:00:00.000Z''), completed = False, notified = Some False,
      createdAt = ascii ''1970-01-01T00:00:00.000Z''\<rparr>"

definition broken_due_task :: task where
  "broken_due_task =
     \<lparr>task_id = ascii ''5'', title = ascii ''Book dentist'', task_notes = None,
      due = Some (ascii ''x''), completed = False, notified = Some False,
      createdAt = ascii ''1970-01-01T00:00:00.000Z''\<rparr>"

definition granted_state :: "(bool \<times> NotificationPermission) \<times> nat" where
  "granted_state = ((True, granted), 0)"

definition denied_state :: "(bool \<times> NotificationPermission) \<times> nat" where
  "denied_state = ((True, denied), 0)"

definition null_storage :: localStorage where
  "null_storage = empty_storage\<lparr>items := (items empty_storage)(STORAGE_KEY \<mapsto> ascii ''null'')\<rparr>"

definition null_array_storage :: localStorage where
  "null_array_storage =
     empty_storage\<lparr>items := (items empty_storage)(STORAGE_KEY \<mapsto> ascii ''[null]'')\<rparr>"


section \<open>Properties\<close>

subsection \<open>Evaluation of the examples\<close>

lemmas sample_defs = sample_host_def sample_parse_def sample_iso_def sample_lower_def
  sample_platform_def pay_bill_def call_mum_def water_plants_def ascii_def

lemmas more_defs = absent_state_def bill_draft_def bad_due_draft_def new_due_only_def

lemmas eval_defs = tick_def tick_task_def notifyTask_def getTime_due_def truthy_str_def truthy_bool_def
      or_empty_def eligible_def platform_at_def granted_state_def denied_state_def tomorrow_task_def broken_due_task_def

subsection \<open>Task store\<close>

lemma unat_less_65536: "unat (c :: 16 word) < 65536"
  using unsigned_less[of c, where 'a = nat] by simp

lemma hex_val_hex_char: "d < 16 \<Longrightarrow> hex_val (hex_char d) = Some d"
proof -
  assume "d < 16"
  then have "d = 0 \<or> d = 1 \<or> d = 2 \<or> d = 3 \<or> d = 4 \<or> d = 5 \<or> d = 6 \<or> d = 7 \<or> d = 8 \<or> d = 9
     \<or> d = 10 \<or> d = 11 \<or> d = 12 \<or> d = 13 \<or> d = 14 \<or> d = 15"
    by arith
  then show ?thesis
    by (elim disjE) (simp_all add: hex_val_def hex_char_def)
qed

lemma digits_nat:
  assumes "n < 65536"
  shows "((n div 4096 mod 16 * 16 + n div 256 mod 16) * 16 + n div 16 mod 16) * 16 + n mod 16 = (n::nat)"
proof -
  have a: "n div 256 = n div 16 div 16" by (simp add: div_mult2_eq)
  have b: "n div 4096 = n div 16 div 16 div 16" by (simp add: div_mult2_eq)
  have c: "n div 16 div 16 div 16 < 16" using assms by (simp add: a[symmetric] b[symmetric])
  define q1 where "q1 = n div 16"
  define q2 where "q2 = q1 div 16"
  define q3 where "q3 = q2 div 16"
  have 1: "n = q1 * 16 + n mod 16" by (simp add: q1_def)
  have 2: "q1 = q2 * 16 + q1 mod 16" by (simp add: q2_def)
  have 3: "q2 = q3 * 16 + q2 mod 16" by (simp add: q3_def)
  have 4: "q3 mod 16 = q3" using c by (simp add: q1_def q2_def q3_def)
  have "((q3 mod 16 * 16 + q2 mod 16) * 16 + q1 mod 16) * 16 + n mod 16 = n"
    using 1 2 3 4 by simp
  then show ?thesis by (simp add: a b q1_def q2_def q3_def)
qed

lemma hex4_escape:
  "hex4 (hex_char (unat c div 4096 mod 16)) (hex_char (unat c div 256 mod 16))
        (hex_char (unat c div 16 mod 16)) (hex_char (unat c mod 16)) = Some c"
proof -
  let ?n = "unat c"
  have v: "hex_val (hex_char (?n div 4096 mod 16)) = Some (?n div 4096 mod 16)"
      "hex_val (hex_char (?n div 256 mod 16)) = Some (?n div 256 mod 16)"
      "hex_val (hex_char (?n div 16 mod 16)) = Some (?n div 16 mod 16)"
      "hex_val (hex_char (?n mod 16)) = Some (?n mod 16)"
    by (simp_all add: hex_val_hex_char)
  have e: "(of_nat ?n :: 16 word) = c" by simp
  have "hex4 (hex_char (?n div 4096 mod 16)) (hex_char (?n div 256 mod 16))
        (hex_char (?n div 16 mod 16)) (hex_char (?n mod 16))
      = Some (of_nat (((?n div 4096 mod 16 * 16 + ?n div 256 mod 16) * 16 + ?n div 16 mod 16) * 16
              + ?n mod 16))"
    unfolding hex4_def by (simp only: v option.case prod.case)
  also have "\<dots> = Some (of_nat ?n)"
    by (simp only: digits_nat[OF unat_less_65536])
  finally show ?thesis by (simp only: e)
qed

lemma lex_string_end: "lex_string (0x22 # cs) = Some ([], cs)"
  by simp

lemma lex_string_plain:
  "c \<noteq> 0x22 \<Longrightarrow> c \<noteq> 0x5C \<Longrightarrow> \<not> unat c < 0x20 \<Longrightarrow>
     lex_string (c # cs) = cons_char c (lex_string cs)"
  by simp

lemma lex_string_short:
  "e \<noteq> 0x75 \<Longrightarrow> lex_string (0x5C # e # es) =
     (case unescape e of None \<Rightarrow> None | Some u \<Rightarrow> cons_char u (lex_string es))"
  by simp

lemma lex_string_escape:
  "lex_string (unicode_escape c @ rest) = cons_char c (lex_string rest)"
  by (simp add: unicode_escape_def hex4_escape)

lemma lex_string_quote_unit:
  "lex_string (quote_unit c @ rest) = cons_char c (lex_string rest)"
proof -
  consider "c = 0x08" | "c = 0x09" | "c = 0x0A" | "c = 0x0C" | "c = 0x0D" | "c = 0x22" | "c = 0x5C"
    | "c \<noteq> 0x08" "c \<noteq> 0x09" "c \<noteq> 0x0A" "c \<noteq> 0x0C" "c \<noteq> 0x0D" "c \<noteq> 0x22" "c \<noteq> 0x5C"
      "unat c < 0x20 \<or> is_high c \<or> is_low c"
    | "c \<noteq> 0x08" "c \<noteq> 0x09" "c \<noteq> 0x0A" "c \<noteq> 0x0C" "c \<noteq> 0x0D" "c \<noteq> 0x22" "c \<noteq> 0x5C"
      "\<not> (unat c < 0x20 \<or> is_high c \<or> is_low c)"
    by blast
  then show ?thesis
  proof cases
    case 8
    then show ?thesis
      by (simp add: quote_unit_def lex_string_escape del: lex_string.simps)
  next
    case 9
    then show ?thesis
      by (simp add: quote_unit_def lex_string_plain del: lex_string.simps)
  qed (simp_all add: quote_unit_def lex_string_short unescape_def del: lex_string.simps)
qed

lemma lex_string_quote_chars:
  "lex_string (quote_chars s @ 0x22 # rest) = Some (s, rest)"
proof (induction s rule: quote_chars.induct)
  case 1
  then show ?case by simp
next
  case (2 c)
  then show ?case by (simp add: lex_string_quote_unit lex_string_end cons_char_def del: lex_string.simps)
next
  case (3 c d ds)
  show ?case
  proof (cases "is_high c \<and> is_low d")
    case True
    then have "c \<noteq> 0x22" "c \<noteq> 0x5C" "\<not> unat c < 0x20" "d \<noteq> 0x22" "d \<noteq> 0x5C" "\<not> unat d < 0x20"
      by (auto simp: is_high_def is_low_def)
    with True 3 show ?thesis by (simp add: cons_char_def lex_string_plain del: lex_string.simps)
  next
    case False
    then have "quote_chars (c # d # ds) = quote_unit c @ quote_chars (d # ds)"
      by auto
    with 3 False show ?thesis
      by (simp add: lex_string_quote_unit cons_char_def del: lex_string.simps quote_chars.simps)
  qed
qed

lemma tokens_print_token:
  "\<not> is_number_token t \<Longrightarrow> tokens (print_token t @ text) = cons_tok t (tokens text)"
proof (cases t)
  case (T_String s)
  then show ?thesis
    by (simp add: QuoteJSONString_def is_json_ws_def lex_string_quote_chars)
qed (simp_all add: is_json_ws_def is_digit_def ascii_def)

lemma tokens_print_tokens:
  "\<forall>t\<in>set ts. \<not> is_number_token t \<Longrightarrow>
     tokens (concat (map print_token ts) @ text) = map_option ((@) ts) (tokens text)"
proof (induction ts)
  case Nil
  show ?case by (simp add: option.map_ident)
next
  case (Cons t ts)
  then show ?case
    by (cases "tokens text") (simp_all add: tokens_print_token cons_tok_def del: tokens.simps)
qed

lemma join_comma_no_number:
  "\<forall>x\<in>set xs. \<forall>t\<in>set x. \<not> is_number_token t \<Longrightarrow> \<forall>t\<in>set (join_comma xs). \<not> is_number_token t"
  by (induction xs rule: join_comma.induct) auto

lemma plain_no_number: "plain v \<Longrightarrow> \<forall>t\<in>set (toks_of v). \<not> is_number_token t"
proof (induction v)
  case (JArray xs)
  have "\<forall>x\<in>set (map toks_of xs). \<forall>t\<in>set x. \<not> is_number_token t"
    using JArray by (auto simp: list_all_iff)
  from join_comma_no_number[OF this] show ?case by simp
next
  case (JObject ms)
  have "\<forall>x\<in>set (map (\<lambda>m. T_String (fst m) # T_Colon # toks_of (snd m)) ms).
          \<forall>t\<in>set x. \<not> is_number_token t"
  proof (intro ballI)
    fix x t
    assume "x \<in> set (map (\<lambda>m. T_String (fst m) # T_Colon # toks_of (snd m)) ms)" "t \<in> set x"
    then obtain m where m: "m \<in> set ms" "t \<in> set (T_String (fst m) # T_Colon # toks_of (snd m))"
      by auto
    have "snd m \<in> Basic_BNFs.snds m" by (cases m) simp
    with JObject.IH[OF m(1)] JObject.prems m(1)
    have "\<forall>t\<in>set (toks_of (snd m)). \<not> is_number_token t"
      by (auto simp: list_all_iff)
    with m(2) show "\<not> is_number_token t" by auto
  qed
  from join_comma_no_number[OF this] show ?case by simp
qed simp_all

lemma tokens_stringify: "plain v \<Longrightarrow> tokens (JSON_stringify v) = Some (toks_of v)"
  using tokens_print_tokens[OF plain_no_number, of v "[]"] by (simp add: JSON_stringify_def)

lemma run_append: "run (xs @ ys) st = run ys (run xs st)"
proof (induction xs arbitrary: st)
  case Nil
  show ?case by (cases st) simp_all
next
  case (Cons t xs)
  show ?case
  proof (cases st)
    case None
    then show ?thesis by simp
  next
    case (Some a)
    then show ?thesis using Cons by (cases a) simp
  qed
qed

lemma step_value_start:
  "value_start c \<Longrightarrow> t \<noteq> T_RBracket \<Longrightarrow> step c S t = start_value t S"
  by (auto simp: value_start_def)

lemma run_elements:
  assumes "\<forall>x\<in>set xs. parses x" and "xs \<noteq> []" and "value_start c"
  shows "run (join_comma (map toks_of xs)) (Some (c, F_Array acc # S))
           = Some (AfterValue, F_Array (rev xs @ acc) # S)"
  using assms
proof (induction xs arbitrary: acc c rule: list_nonempty_induct[consumes 0, case_names start single cons])
  case start
  with assms(2) show ?case by simp
next
  case (single x)
  then show ?case by (simp add: parses_def)
next
  case (cons x xs)
  from cons.hyps obtain y r where xs: "xs = y # r" by (cases xs) auto
  have px: "parses x" and pxs: "\<forall>x\<in>set xs. parses x" using cons.prems by simp_all
  have j: "join_comma (map toks_of (x # xs)) = toks_of x @ [T_Comma] @ join_comma (map toks_of xs)"
    by (simp add: xs)
  have "run (join_comma (map toks_of (x # xs))) (Some (c, F_Array acc # S))
      = run (join_comma (map toks_of xs)) (run [T_Comma] (run (toks_of x) (Some (c, F_Array acc # S))))"
    by (simp only: j run_append)
  also have "run (toks_of x) (Some (c, F_Array acc # S)) = Some (AfterValue, F_Array (x # acc) # S)"
    using px cons.prems by (simp add: parses_def)
  also have "run [T_Comma] (Some (AfterValue, F_Array (x # acc) # S)) = Some (ExpValue, F_Array (x # acc) # S)"
    by simp
  also have "run (join_comma (map toks_of xs)) (Some (ExpValue, F_Array (x # acc) # S))
      = Some (AfterValue, F_Array (rev xs @ x # acc) # S)"
    by (rule cons.IH[OF pxs]) (simp_all add: value_start_def cons.hyps)
  finally show ?case by simp
qed

lemma set_prop_fresh: "k \<notin> fst ` set ms \<Longrightarrow> set_prop ms k v = ms @ [(k, v)]"
  by (induction ms) auto

lemma foldl_add_member_distinct:
  "distinct (map fst (ms0 @ ms)) \<Longrightarrow> foldl add_member ms0 ms = ms0 @ ms"
proof (induction ms arbitrary: ms0)
  case Nil
  show ?case by simp
next
  case (Cons m ms)
  from Cons.prems have f: "fst m \<notin> fst ` set ms0" by auto
  have a: "add_member ms0 m = ms0 @ [m]"
    using set_prop_fresh[OF f, of "snd m"] by (simp add: add_member_def)
  from Cons.prems have "distinct (map fst ((ms0 @ [m]) @ ms))" by simp
  from Cons.IH[OF this] a show ?case by simp
qed

lemma run_Nil: "run [] st = st"
  by (cases st) simp_all

lemma run_member:
  assumes "parses (snd m)" and "key_start c"
  shows "run (member_toks m) (Some (c, F_Object ms0 # S)) = Some (AfterValue, F_Object (add_member ms0 m) # S)"
proof -
  have 1: "run [T_String (fst m)] (Some (c, F_Object ms0 # S)) = Some (ExpColon (fst m), F_Object ms0 # S)"
    using assms(2) by (auto simp: key_start_def)
  have 2: "run [T_Colon] (Some (ExpColon (fst m), F_Object ms0 # S)) = Some (ExpValue, F_Member ms0 (fst m) # S)"
    by simp
  have 3: "run (toks_of (snd m)) (Some (ExpValue, F_Member ms0 (fst m) # S))
       = Some (AfterValue, F_Object (add_member ms0 m) # S)"
    using assms(1) by (simp add: parses_def value_start_def add_member_def)
  have "member_toks m = [T_String (fst m)] @ [T_Colon] @ toks_of (snd m)"
    by (simp add: member_toks_def)
  then show ?thesis by (simp only: run_append 1 2 3)
qed

lemma run_members:
  assumes "\<forall>m\<in>set ms. parses (snd m)" and "ms \<noteq> []" and "key_start c"
  shows "run (join_comma (map member_toks ms)) (Some (c, F_Object ms0 # S))
           = Some (AfterValue, F_Object (foldl add_member ms0 ms) # S)"
  using assms
proof (induction ms arbitrary: ms0 c rule: list_nonempty_induct[consumes 0, case_names start single cons])
  case start
  with assms(2) show ?case by simp
next
  case (single m)
  then show ?case by (simp add: run_member)
next
  case (cons m ms)
  from cons.hyps obtain y r where ms: "ms = y # r" by (cases ms) auto
  have pm: "parses (snd m)" and pms: "\<forall>m\<in>set ms. parses (snd m)" using cons.prems by simp_all
  have j: "join_comma (map member_toks (m # ms)) = member_toks m @ [T_Comma] @ join_comma (map member_toks ms)"
    by (simp add: ms)
  have "run (join_comma (map member_toks (m # ms))) (Some (c, F_Object ms0 # S))
      = run (join_comma (map member_toks ms)) (run [T_Comma] (run (member_toks m) (Some (c, F_Object ms0 # S))))"
    by (simp only: j run_append)
  also have "run (member_toks m) (Some (c, F_Object ms0 # S)) = Some (AfterValue, F_Object (add_member ms0 m) # S)"
    using pm cons.prems by (simp add: run_member)
  also have "run [T_Comma] (Some (AfterValue, F_Object (add_member ms0 m) # S))
      = Some (ExpKey, F_Object (add_member ms0 m) # S)"
    by simp
  also have "run (join_comma (map member_toks ms)) (Some (ExpKey, F_Object (add_member ms0 m) # S))
      = Some (AfterValue, F_Object (foldl add_member (add_member ms0 m) ms) # S)"
    by (rule cons.IH[OF pms]) (simp_all add: key_start_def cons.hyps)
  finally show ?case by simp
qed

lemma parses_array:
  assumes "\<forall>x\<in>set xs. parses x"
  shows "parses (JArray xs)"
  unfolding parses_def
proof (intro allI impI)
  fix c S assume c: "value_start c"
  have t: "toks_of (JArray xs) = [T_LBracket] @ join_comma (map toks_of xs) @ [T_RBracket]"
    by simp
  have 1: "run [T_LBracket] (Some (c, S)) = Some (ExpValueOrEnd, F_Array [] # S)"
    using c by (auto simp: value_start_def)
  show "run (toks_of (JArray xs)) (Some (c, S)) = reduce (JArray xs) S"
  proof (cases "xs = []")
    case True
    then have "toks_of (JArray xs) = [T_LBracket] @ [T_RBracket]" by simp
    then show ?thesis by (simp only: run_append 1) (simp add: True run_Nil)
  next
    case False
    have 2: "run (join_comma (map toks_of xs)) (Some (ExpValueOrEnd, F_Array [] # S))
        = Some (AfterValue, F_Array (rev xs @ []) # S)"
      by (rule run_elements[OF assms False]) (simp add: value_start_def)
    show ?thesis by (simp only: t run_append 1 2) (simp add: run_Nil)
  qed
qed

lemma parses_object:
  assumes "\<forall>m\<in>set ms. parses (snd m)" and "distinct (map fst ms)"
  shows "parses (JObject ms)"
  unfolding parses_def
proof (intro allI impI)
  fix c S assume c: "value_start c"
  have t: "toks_of (JObject ms) = [T_LBrace] @ join_comma (map member_toks ms) @ [T_RBrace]"
    by (simp add: member_toks_def[abs_def])
  have 1: "run [T_LBrace] (Some (c, S)) = Some (ExpKeyOrEnd, F_Object [] # S)"
    using c by (auto simp: value_start_def)
  show "run (toks_of (JObject ms)) (Some (c, S)) = reduce (JObject ms) S"
  proof (cases "ms = []")
    case True
    then have "toks_of (JObject ms) = [T_LBrace] @ [T_RBrace]" by simp
    then show ?thesis by (simp only: run_append 1) (simp add: True run_Nil)
  next
    case False
    have 2: "run (join_comma (map member_toks ms)) (Some (ExpKeyOrEnd, F_Object [] # S))
        = Some (AfterValue, F_Object (foldl add_member [] ms) # S)"
      by (rule run_members[OF assms(1) False]) (simp add: key_start_def)
    have 3: "foldl add_member [] ms = ms"
      using foldl_add_member_distinct[of "[]" ms] assms(2) by simp
    show ?thesis by (simp only: t run_append 1 2 3) (simp add: run_Nil)
  qed
qed

lemma plain_parses: "plain v \<Longrightarrow> parses v"
proof (induction v)
  case (JArray xs)
  then show ?case by (intro parses_array) (auto simp: list_all_iff)
next
  case (JObject ms)
  have "\<forall>m\<in>set ms. parses (snd m)"
  proof
    fix m assume m: "m \<in> set ms"
    have "snd m \<in> Basic_BNFs.snds m" by (cases m) simp
    with JObject.IH[OF m] JObject.prems m show "parses (snd m)" by (auto simp: list_all_iff)
  qed
  with JObject.prems show ?case by (intro parses_object) simp_all
qed (auto simp: parses_def value_start_def run_Nil)

lemma JSON_parse_stringify: "plain v \<Longrightarrow> JSON_parse (JSON_stringify v) = Inr v"
proof -
  assume p: "plain v"
  from plain_parses[OF p] have "run (toks_of v) (Some (ExpValue, [])) = Some (Done v, [])"
    by (simp add: parses_def value_start_def)
  then show ?thesis by (simp add: JSON_parse_def tokens_stringify[OF p])
qed

lemma JSON_stringify_not_empty: "plain v \<Longrightarrow> JSON_stringify v \<noteq> []"
  by (cases v) (auto simp: JSON_stringify_def QuoteJSONString_def ascii_def)

lemma key_name_inj: "key_name a = key_name b \<Longrightarrow> a = b"
  by (cases a; cases b) (simp_all add: ascii_def)

lemma fst_members_of: "fst ` set (members_of t ks) \<subseteq> key_name ` set ks"
  by (induction ks) (auto split: option.splits)

lemma map_of_members_of:
  "distinct ks \<Longrightarrow> k \<in> set ks \<Longrightarrow> map_of (members_of t ks) (key_name k) = prop_json t k"
proof (induction ks)
  case Nil
  then show ?case by simp
next
  case (Cons a ks)
  show ?case
  proof (cases "a = k")
    case True
    with Cons.prems have "k \<notin> set ks" by simp
    then have "key_name k \<notin> fst ` set (members_of t ks)"
      using fst_members_of[of t ks] key_name_inj by blast
    then have "map_of (members_of t ks) (key_name k) = None"
      by (simp add: map_of_eq_None_iff)
    with True show ?thesis by (simp split: option.splits)
  next
    case False
    with Cons show ?thesis by (auto split: option.splits dest: key_name_inj)
  qed
qed

lemma distinct_members_of: "distinct ks \<Longrightarrow> distinct (map fst (members_of t ks))"
proof (induction ks)
  case Nil
  show ?case by simp
next
  case (Cons a ks)
  then have "a \<notin> set ks" by simp
  then have "key_name a \<notin> fst ` set (members_of t ks)"
    using fst_members_of[of t ks] key_name_inj by blast
  with Cons show ?case by (simp split: option.splits)
qed

lemma plain_prop_json: "prop_json t k = Some v \<Longrightarrow> plain v"
  by (cases k) auto

lemma plain_members_of: "list_all (\<lambda>m. plain (snd m)) (members_of t ks)"
  by (induction ks) (auto split: option.splits dest: plain_prop_json)

lemma plain_task_json: "distinct ord \<Longrightarrow> plain (task_json ord t)"
  by (simp add: task_json_def distinct_members_of plain_members_of)

lemma get_prop_task_json:
  "distinct ord \<Longrightarrow> set ord = UNIV \<Longrightarrow> get_prop (task_json ord t) k = prop_json t k"
  by (simp add: get_prop_def task_json_def map_of_members_of)

lemma Task_of_task_json:
  assumes "distinct ord" and "set ord = UNIV"
  shows "Task_of (task_json ord t) = Some t"
proof -
  have o: "is_object (task_json ord t)" by (simp add: is_object_def task_json_def)
  show ?thesis
    unfolding Task_of_def get_prop_task_json[OF assms]
    by (cases "task_notes t"; cases "due t"; cases "notified t")
       (simp_all add: o req_string_def req_bool_def opt_string_def opt_bool_def)
qed

lemma spread_copy_task_json: "spread_copy (task_json ord t) = task_json ord t"
  by (simp add: spread_copy_def task_json_def)

lemma plain_tasks_json: "\<forall>i. distinct (ord i) \<Longrightarrow> plain (tasks_json ord tasks)"
  by (auto simp: tasks_json_def list_all_iff plain_task_json)

lemma map_Task_of_tasks:
  assumes "\<forall>i. distinct (ord i) \<and> set (ord i) = UNIV"
  shows "map (\<lambda>p. Task_of (spread_copy (case p of (i, t) \<Rightarrow> task_json (ord i) t))) (enumerate n tasks)
           = map Some tasks"
  using assms
  by (induction tasks arbitrary: n) (simp_all add: spread_copy_task_json Task_of_task_json)

lemma UNIV_task_key: "set declared_order = UNIV"
proof -
  have "k \<in> set declared_order" for k
    by (cases k) (simp_all add: declared_order_def)
  then show ?thesis by blast
qed

lemma distinct_declared_order: "distinct declared_order"
  by (simp add: declared_order_def)

lemma stringify_example:
  \<open>JSON_stringify (tasks_json (\<lambda>i. declared_order) [call_mum])
     = ascii ''[{"id":"2","title":"Call mum","notes":"evening","completed":false,"notified":false,"createdAt":"1970-01-01T00:00:00.000Z"}]''\<close>
  by (simp add: JSON_stringify_def tasks_json_def task_json_def declared_order_def enumerate_eq_zip
      QuoteJSONString_def quote_unit_def is_high_def is_low_def call_mum_def ascii_def)

lemma loadTasks_corrupt_example:
  \<open>loadTasks (empty_storage\<lparr>items := (\<lambda>k. Some (ascii ''[{"id":"2"},''))\<rparr>) = [] \<and>
   loadTasks (empty_storage\<lparr>items := (\<lambda>k. Some (ascii ''{"id":"2"}''))\<rparr>) = []\<close>
  by (simp add: loadTasks_def getItem_def empty_storage_def JSON_parse_def map_copy_def ascii_def
      is_json_ws_def is_digit_def cons_tok_def cons_char_def)

lemma JSON_parse_empty: "JSON_parse [] = Inl SyntaxError"
  by (simp add: JSON_parse_def)

lemma map_copy_not_array: "\<forall>xs. v \<noteq> JArray xs \<Longrightarrow> map_copy v = Inl TypeError"
  by (cases v) (simp_all add: map_copy_def)

text \<open>
  Claim C7, as the code has it. When \<open>saveTasks\<close> succeeds, whatever the order in which
  each task object holds its properties, \<open>loadTasks\<close> on the store it leaves returns as
  many values as there were tasks, and each reads as the task saved at its position.
  When the slot is absent or empty, when the access to the store throws, when the
  content does not parse, or when it parses to a value that is not an array,
  \<open>loadTasks\<close> returns the empty list. When the content parses to an array,
  \<open>loadTasks\<close> returns the copy of each of its elements, whatever they are: nothing
  checks that an element is a task. It has no other outcome than a list.
\<close>

theorem load_after_save:
  "((\<forall>i. distinct (ord i) \<and> set (ord i) = UNIV) \<and> saveTasks st ord tasks = Inr st'
      \<longrightarrow> map Task_of (loadTasks st') = map Some tasks) \<and>
   (getItem st STORAGE_KEY = Inr None \<longrightarrow> loadTasks st = []) \<and>
   (getItem st STORAGE_KEY = Inr (Some []) \<longrightarrow> loadTasks st = []) \<and>
   (\<forall>e. getItem st STORAGE_KEY = Inl e \<longrightarrow> loadTasks st = []) \<and>
   (\<forall>raw e. getItem st STORAGE_KEY = Inr (Some raw) \<and> JSON_parse raw = Inl e \<longrightarrow> loadTasks st = []) \<and>
   (\<forall>raw v. getItem st STORAGE_KEY = Inr (Some raw) \<and> JSON_parse raw = Inr v \<and> (\<forall>xs. v \<noteq> JArray xs)
      \<longrightarrow> loadTasks st = []) \<and>
   (\<forall>raw xs. getItem st STORAGE_KEY = Inr (Some raw) \<and> JSON_parse raw = Inr (JArray xs)
      \<longrightarrow> loadTasks st = map spread_copy xs)"
proof (intro conjI allI impI)
  assume a: "(\<forall>i. distinct (ord i) \<and> set (ord i) = UNIV) \<and> saveTasks st ord tasks = Inr st'"
  let ?v = "tasks_json ord tasks"
  from a have d: "\<forall>i. distinct (ord i)" by simp
  have p: "plain ?v" by (rule plain_tasks_json[OF d])
  from a have st': "st' = st\<lparr>items := (items st)(STORAGE_KEY \<mapsto> JSON_stringify ?v)\<rparr>"
      and nb: "\<not> blocked st"
    by (auto simp: saveTasks_def setItem_def split: if_splits)
  have g: "getItem st' STORAGE_KEY = Inr (Some (JSON_stringify ?v))"
    by (simp add: st' getItem_def nb)
  have "loadTasks st' = map spread_copy (map (\<lambda>(i, t). task_json (ord i) t) (enumerate 0 tasks))"
    by (simp add: loadTasks_def g JSON_stringify_not_empty[OF p] JSON_parse_stringify[OF p] map_copy_def
        tasks_json_def[symmetric])
       (simp add: tasks_json_def)
  then show "map Task_of (loadTasks st') = map Some tasks"
    using map_Task_of_tasks[of ord 0 tasks] a by (simp add: comp_def)
next
  fix raw v
  assume "getItem st STORAGE_KEY = Inr (Some raw) \<and> JSON_parse raw = Inr v \<and> (\<forall>xs. v \<noteq> JArray xs)"
  then show "loadTasks st = []"
    by (simp add: loadTasks_def map_copy_not_array)
next
  fix raw xs
  assume a: "getItem st STORAGE_KEY = Inr (Some raw) \<and> JSON_parse raw = Inr (JArray xs)"
  then have "raw \<noteq> []" using JSON_parse_empty by auto
  with a show "loadTasks st = map spread_copy xs"
    by (simp add: loadTasks_def map_copy_def)
qed (simp_all add: loadTasks_def)

theorem load_after_save_witness:
  "distinct declared_order \<and> set declared_order = UNIV \<and>
   saveTasks empty_storage (\<lambda>i. declared_order) [pay_bill, call_mum]
     = Inr (empty_storage\<lparr>items := (items empty_storage)(STORAGE_KEY \<mapsto>
              JSON_stringify (tasks_json (\<lambda>i. declared_order) [pay_bill, call_mum]))\<rparr>) \<and>
   map Task_of (loadTasks (empty_storage\<lparr>items := (items empty_storage)(STORAGE_KEY \<mapsto>
              JSON_stringify (tasks_json (\<lambda>i. declared_order) [pay_bill, call_mum]))\<rparr>))
     = [Some pay_bill, Some call_mum] \<and>
   getItem empty_storage STORAGE_KEY = Inr None \<and> loadTasks empty_storage = [] \<and>
   getItem null_storage STORAGE_KEY = Inr (Some (ascii ''null'')) \<and>
   JSON_parse (ascii ''null'') = Inr JNull \<and> loadTasks null_storage = []"
proof -
  let ?st' = "empty_storage\<lparr>items := (items empty_storage)(STORAGE_KEY \<mapsto>
              JSON_stringify (tasks_json (\<lambda>i. declared_order) [pay_bill, call_mum]))\<rparr>"
  have s: "saveTasks empty_storage (\<lambda>i. declared_order) [pay_bill, call_mum] = Inr ?st'"
    by (simp add: saveTasks_def setItem_def empty_storage_def)
  have g: "getItem empty_storage STORAGE_KEY = Inr None"
    by (simp add: getItem_def empty_storage_def)
  have o: "\<forall>i::nat. distinct declared_order \<and> set declared_order = UNIV"
    by (simp add: UNIV_task_key distinct_declared_order)
  note r = load_after_save[of "\<lambda>i. declared_order" empty_storage "[pay_bill, call_mum]" ?st']
  from r o s have 1: "map Task_of (loadTasks ?st') = map Some [pay_bill, call_mum]" by blast
  from r g have 2: "loadTasks empty_storage = []" by blast
  have gn: "getItem null_storage STORAGE_KEY = Inr (Some (ascii ''null''))"
    by (simp add: getItem_def null_storage_def empty_storage_def)
  have pn: "JSON_parse (ascii ''null'') = Inr JNull"
    by (simp add: JSON_parse_def ascii_def is_json_ws_def is_digit_def cons_tok_def)
  have nn: "\<forall>xs. JNull \<noteq> JArray xs" by simp
  note rn = load_after_save[of "\<lambda>i. declared_order" null_storage "[]" null_storage]
  from rn gn pn nn have 3: "loadTasks null_storage = []" by blast
  from 1 2 3 s g gn pn show ?thesis by (simp add: UNIV_task_key distinct_declared_order)
qed

text \<open>
  Claim C7 as stated fails: the content \<open>[null]\<close> parses but holds no task, and
  \<open>loadTasks\<close> does not return the empty list for it; it returns one empty object,
  which does not read as a task.
\<close>

theorem load_after_save_counterexample:
  "getItem null_array_storage STORAGE_KEY = Inr (Some (ascii ''[null]'')) \<and>
   JSON_parse (ascii ''[null]'') = Inr (JArray [JNull]) \<and>
   loadTasks null_array_storage = [JObject []] \<and>
   Task_of (JObject []) = None"
proof -
  have g: "getItem null_array_storage STORAGE_KEY = Inr (Some (ascii ''[null]''))"
    by (simp add: getItem_def null_array_storage_def empty_storage_def)
  have p: "JSON_parse (ascii ''[null]'') = Inr (JArray [JNull])"
    by (simp add: JSON_parse_def ascii_def is_json_ws_def is_digit_def cons_tok_def)
  have n: "ascii ''[null]'' \<noteq> []" by (simp add: ascii_def)
  have l: "loadTasks null_array_storage = [JObject []]"
    by (simp add: loadTasks_def g p n map_copy_def spread_copy_def)
  have t: "Task_of (JObject []) = None"
    by (simp add: Task_of_def is_object_def get_prop_def req_string_def)
  from g p l t show ?thesis by simp
qed

subsection \<open>Task model and mutators\<close>

text \<open>
  Claim C4, as the code has it. A draft whose title is empty after trimming leaves
  the snapshot unchanged. A draft with a non-empty trimmed title whose due text is
  empty after trimming, or parses to a valid date, gives the snapshot with exactly one
  new task at the front, with \<open>completed = false\<close>, \<open>notified = false\<close>, the trimmed
  title, the trimmed notes or none, and the due date as parsed or unset.
\<close>

theorem addTask_result:
  "(trim (or_empty (d_title d)) = [] \<longrightarrow> addTask H now_text rnd now d prev = Inr prev) \<and>
   (trim (or_empty (d_title d)) \<noteq> [] \<and> trim (or_empty (d_due d)) = [] \<longrightarrow>
      addTask H now_text rnd now d prev =
        Inr (\<lparr>task_id = uid now_text rnd, title = trim (or_empty (d_title d)),
              task_notes = or_undefined (trim (or_empty (d_notes d))), due = None,
              completed = False, notified = Some False, createdAt = iso_text H now\<rparr> # prev)) \<and>
   (\<forall>ms. trim (or_empty (d_title d)) \<noteq> [] \<and> trim (or_empty (d_due d)) \<noteq> [] \<and>
      Date_parse H (trim (or_empty (d_due d))) = Some ms \<longrightarrow>
      addTask H now_text rnd now d prev =
        Inr (\<lparr>task_id = uid now_text rnd, title = trim (or_empty (d_title d)),
              task_notes = or_undefined (trim (or_empty (d_notes d))), due = Some (iso_text H ms),
              completed = False, notified = Some False, createdAt = iso_text H now\<rparr> # prev))"
  by (simp add: addTask_def Let_def toISOString_def)

theorem addTask_result_witness:
  "trim (or_empty (d_title bill_draft)) \<noteq> [] \<and> trim (or_empty (d_due bill_draft)) \<noteq> [] \<and>
   Date_parse sample_host (trim (or_empty (d_due bill_draft))) = Some 60000 \<and>
   addTask sample_host (ascii ''0'') (ascii ''a1b2c3'') 0 bill_draft [call_mum] = Inr [pay_bill, call_mum]"
proof -
  have t: "trim (or_empty (d_title bill_draft)) = ascii ''Pay bill''"
    by (simp add: bill_draft_def or_empty_def trim_def isWhiteSpace_def ascii_def)
  have n: "trim (or_empty (d_notes bill_draft)) = []"
    by (simp add: bill_draft_def or_empty_def trim_def isWhiteSpace_def ascii_def)
  have d: "trim (or_empty (d_due bill_draft)) = ascii ''1970-01-01T00:01:00.000Z''"
    by (simp add: bill_draft_def or_empty_def trim_def isWhiteSpace_def ascii_def)
  have p: "Date_parse sample_host (ascii ''1970-01-01T00:01:00.000Z'') = Some 60000"
    by (simp add: sample_host_def sample_parse_def ascii_def)
  have ne: "ascii ''Pay bill'' \<noteq> []" "ascii ''1970-01-01T00:01:00.000Z'' \<noteq> []"
    by (simp_all add: ascii_def)
  have i: "iso_text sample_host 60000 = ascii ''1970-01-01T00:01:00.000Z''"
          "iso_text sample_host 0 = ascii ''1970-01-01T00:00:00.000Z''"
    by (simp_all add: sample_host_def sample_iso_def)
  from addTask_result[of bill_draft sample_host "ascii ''0''" "ascii ''a1b2c3''" 0 "[call_mum]"] t n d p ne i
  show ?thesis by (simp add: or_undefined_def pay_bill_def uid_def ascii_def)
qed

text \<open>
  Claim C4 as stated fails: with a title and a due text that does not parse,
  \<open>toISOString\<close> throws and no task is added.
\<close>

theorem addTask_counterexample:
  "trim (or_empty (d_title bad_due_draft)) \<noteq> [] \<and>
   addTask sample_host (ascii ''0'') (ascii ''a1b2c3'') 0 bad_due_draft [call_mum] = Inl RangeError"
  by (simp add: addTask_def Let_def toISOString_def bad_due_draft_def or_empty_def trim_def
      isWhiteSpace_def ascii_def sample_host_def sample_parse_def)

text \<open>
  Claim C1, as the code has it. \<open>saveEdit\<close> spreads the update record over every task
  with the given id and changes no other task and no length: the task's \<open>notified\<close>
  afterwards is the value the record carries when it carries one, and the task's
  previous value otherwise. The edit form (\<open>onSave\<close>) always carries
  \<open>notified: false\<close>, so whenever it saves, every task with the edited id has
  \<open>notified = false\<close>, whatever its previous value and whether or not a date is set.
\<close>

theorem saveEdit_notified:
  "length (saveEdit i u prev) = length prev \<and>
   (\<forall>k<length prev. task_id (prev ! k) = i \<longrightarrow>
      notified (saveEdit i u prev ! k) = (case u_notified u of None \<Rightarrow> notified (prev ! k) | Some v \<Rightarrow> v)) \<and>
   (\<forall>s. onSave H t ttl nts dd prev = Inr s \<longrightarrow> length s = length prev \<and>
      (\<forall>k<length prev. task_id (prev ! k) = task_id t \<longrightarrow> notified (s ! k) = Some False))"
  by (auto simp: saveEdit_def spread_def onSave_def split: sum.splits option.splits)

theorem saveEdit_notified_witness:
  "onSave sample_host water_plants (ascii ''Water plants'') [] (Some (Some 86400000)) [pay_bill, water_plants]
     = Inr [pay_bill, water_plants\<lparr>due := Some (ascii ''1970-01-02T00:00:00.000Z''), notified := Some False\<rparr>]
   \<and> task_id ([pay_bill, water_plants] ! 1) = task_id water_plants
   \<and> notified (water_plants\<lparr>due := Some (ascii ''1970-01-02T00:00:00.000Z''), notified := Some False\<rparr>) = Some False"
  using saveEdit_notified[of "task_id water_plants" new_due_only "[pay_bill, water_plants]" sample_host water_plants
     "ascii ''Water plants''" "[]" "Some (Some 86400000)"]
  by (simp add: onSave_def saveEdit_def spread_def toISOString_def trim_def isWhiteSpace_def or_undefined_def sample_defs)

text \<open>
  Claim C1 as stated fails: an update that carries a due date and no \<open>notified\<close>
  leaves a task that was already notified with \<open>notified = true\<close>.
\<close>

theorem saveEdit_counterexample:
  "task_id water_plants = ascii ''3'' \<and>
   u_due new_due_only = Some (Some (ascii ''1970-01-02T00:00:00.000Z'')) \<and>
   notified water_plants = Some True \<and>
   saveEdit (ascii ''3'') new_due_only [pay_bill, water_plants]
     = [pay_bill, water_plants\<lparr>due := Some (ascii ''1970-01-02T00:00:00.000Z'')\<rparr>] \<and>
   notified (saveEdit (ascii ''3'') new_due_only [pay_bill, water_plants] ! 1) = Some True"
  by (simp add: saveEdit_def spread_def sample_defs more_defs)

subsection \<open>Notification gateway\<close>

text \<open>
  Claim C2, as the code has it. When the notification capability is absent from the
  runtime, \<open>ensureNotificationPermission\<close> returns \<open>denied\<close> and leaves the platform
  as it was, for every permission state; the result type of the source has no value
  \<open>unsupported\<close>.
\<close>

theorem ensurePermission_absent:
  "\<not> Notification_in_window P w \<Longrightarrow>
     ensureNotificationPermission P w = (denied, w) \<and>
     outcome (fst (ensureNotificationPermission P w)) = outcome_denied"
  by (simp add: ensureNotificationPermission_def)

theorem ensurePermission_absent_witness:
  "\<not> Notification_in_window sample_platform absent_state \<and>
   ensureNotificationPermission sample_platform absent_state = (denied, absent_state)"
  using ensurePermission_absent[of sample_platform absent_state]
  by (simp add: sample_platform_def absent_state_def)

text \<open>
  Claim C2 as stated fails: with the capability absent the result is not
  \<open>unsupported\<close>.
\<close>

theorem ensurePermission_absent_counterexample:
  "\<not> Notification_in_window sample_platform absent_state \<and>
   outcome (fst (ensureNotificationPermission sample_platform absent_state)) \<noteq> outcome_unsupported"
  by (simp add: ensureNotificationPermission_def sample_platform_def absent_state_def)

subsection \<open>Reminder scheduler\<close>

lemma tick_task_cases:
  "tick_task H P now w t = ((t, False), w) \<or>
   (eligible H now t \<and> \<not> fst (notifyTask P w t) \<and> tick_task H P now w t = ((t, False), snd (notifyTask P w t))) \<or>
   (eligible H now t \<and> fst (notifyTask P w t) \<and>
      tick_task H P now w t = ((t\<lparr>notified := Some True\<rparr>, True), snd (notifyTask P w t)))"
  by (auto simp: tick_task_def eligible_def split: option.splits prod.splits)

lemma tick_task_not_eligible:
  "\<not> eligible H now t \<Longrightarrow> tick_task H P now w t = ((t, False), w)"
  using tick_task_cases[of H P now w t] by auto

lemma tick_task_eligible:
  "eligible H now t \<Longrightarrow>
     tick_task H P now w t =
       ((if fst (notifyTask P w t) then t\<lparr>notified := Some True\<rparr> else t, fst (notifyTask P w t)),
        snd (notifyTask P w t))"
  by (auto simp: tick_task_def eligible_def split: option.splits prod.splits)

lemma tick_map_Cons:
  "tick_map H P now w (t # ts) =
     ((fst (fst (tick_task H P now w t)) # fst (fst (tick_map H P now (snd (tick_task H P now w t)) ts)),
       snd (fst (tick_task H P now w t)) \<or> snd (fst (tick_map H P now (snd (tick_task H P now w t)) ts))),
      snd (tick_map H P now (snd (tick_task H P now w t)) ts))"
  by (simp split: prod.splits)

lemma length_tick_map: "length (fst (fst (tick_map H P now w ts))) = length ts"
  by (induction ts arbitrary: w) (simp_all add: tick_map_Cons del: tick_map.simps(2))

lemma platform_at_Suc:
  "platform_at H P now w (t # ts) (Suc j) = platform_at H P now (snd (tick_task H P now w t)) ts j"
  by (simp add: platform_at_def tick_map_Cons del: tick_map.simps(2))

lemma platform_at_0: "platform_at H P now w ts 0 = w"
  by (simp add: platform_at_def)

lemma tick_map_nth:
  "i < length ts \<Longrightarrow>
     fst (fst (tick_map H P now w ts)) ! i =
       fst (fst (tick_task H P now (platform_at H P now w ts i) (ts ! i)))"
proof (induction ts arbitrary: w i)
  case Nil
  then show ?case by simp
next
  case (Cons t ts)
  show ?case
  proof (cases i)
    case 0
    then show ?thesis by (simp add: platform_at_0 tick_map_Cons del: tick_map.simps(2))
  next
    case (Suc j)
    with Cons.prems have j: "j < length ts" by simp
    from Cons.IH[OF j] Suc show ?thesis
      by (simp add: platform_at_Suc tick_map_Cons del: tick_map.simps(2))
  qed
qed

lemma tick_task_unchanged:
  "\<not> snd (fst (tick_task H P now w t)) \<Longrightarrow> fst (fst (tick_task H P now w t)) = t"
  using tick_task_cases[of H P now w t] by auto

lemma tick_map_unchanged:
  "\<not> snd (fst (tick_map H P now w ts)) \<Longrightarrow> fst (fst (tick_map H P now w ts)) = ts"
  by (induction ts arbitrary: w)
     (simp_all add: tick_map_Cons tick_task_unchanged del: tick_map.simps(2))

lemma tick_nth:
  "i < length prev \<Longrightarrow>
     fst (fst (tick H P now w prev)) ! i = prev ! i \<or>
     fst (fst (tick H P now w prev)) ! i = fst (fst (tick_task H P now (platform_at H P now w prev i) (prev ! i)))"
  using tick_map_nth[of i prev H P now w]
  by (auto simp: tick_def split: prod.splits)

lemma length_tick: "length (fst (fst (tick H P now w prev))) = length prev"
  using length_tick_map[of H P now w prev] by (auto simp: tick_def split: prod.splits)

lemma tick_nth_not_eligible:
  "i < length prev \<Longrightarrow> \<not> eligible H now (prev ! i) \<Longrightarrow> fst (fst (tick H P now w prev)) ! i = prev ! i"
  using tick_nth[of i prev H P now w] by (auto simp: tick_task_not_eligible)

lemma tick_snapshot: "fst (fst (tick H P now w prev)) = fst (fst (tick_map H P now w prev))"
  using tick_map_unchanged[of H P now w prev] by (auto simp: tick_def split: prod.splits)

lemma tick_pay_bill:
  "tick sample_host sample_platform 61000 ((True, granted), 0) [pay_bill, call_mum, water_plants]
     = (([pay_bill\<lparr>notified := Some True\<rparr>, call_mum, water_plants], True), ((True, granted), 1))"
  by (simp add: tick_def tick_task_def notifyTask_def getTime_due_def truthy_str_def truthy_bool_def
      or_empty_def sample_defs)

text \<open>
  Claim C10. A tick keeps the number of tasks and their order: the task at each
  position keeps its id, title, notes, due date, completion flag and creation time,
  and its \<open>notified\<close> either stays as it was or goes from false to true.
\<close>

theorem tick_frame:
  "length (fst (fst (tick H P now w prev))) = length prev \<and>
   (\<forall>i<length prev.
      task_id (fst (fst (tick H P now w prev)) ! i) = task_id (prev ! i) \<and>
      title (fst (fst (tick H P now w prev)) ! i) = title (prev ! i) \<and>
      task_notes (fst (fst (tick H P now w prev)) ! i) = task_notes (prev ! i) \<and>
      due (fst (fst (tick H P now w prev)) ! i) = due (prev ! i) \<and>
      completed (fst (fst (tick H P now w prev)) ! i) = completed (prev ! i) \<and>
      createdAt (fst (fst (tick H P now w prev)) ! i) = createdAt (prev ! i) \<and>
      (notified (fst (fst (tick H P now w prev)) ! i) = notified (prev ! i) \<or>
       \<not> truthy_bool (notified (prev ! i)) \<and> notified (fst (fst (tick H P now w prev)) ! i) = Some True))"
proof (intro conjI allI impI)
  show "length (fst (fst (tick H P now w prev))) = length prev" by (rule length_tick)
next
  fix i assume i: "i < length prev"
  let ?t' = "fst (fst (tick H P now w prev)) ! i"
  let ?wi = "platform_at H P now w prev i"
  have c: "?t' = prev ! i \<or> (eligible H now (prev ! i) \<and> ?t' = (prev ! i)\<lparr>notified := Some True\<rparr>)"
    using tick_nth[OF i, of H P now w] tick_task_cases[of H P now ?wi "prev ! i"] by auto
  from c show "task_id ?t' = task_id (prev ! i)" by auto
  from c show "title ?t' = title (prev ! i)" by auto
  from c show "task_notes ?t' = task_notes (prev ! i)" by auto
  from c show "due ?t' = due (prev ! i)" by auto
  from c show "completed ?t' = completed (prev ! i)" by auto
  from c show "createdAt ?t' = createdAt (prev ! i)" by auto
  from c show "notified ?t' = notified (prev ! i) \<or>
       \<not> truthy_bool (notified (prev ! i)) \<and> notified ?t' = Some True"
    by (auto simp: eligible_def)
qed

theorem tick_frame_witness:
  "length (fst (fst (tick sample_host sample_platform 61000 ((True, granted), 0) [pay_bill, call_mum, water_plants]))) = 3
   \<and> notified (fst (fst (tick sample_host sample_platform 61000 ((True, granted), 0) [pay_bill, call_mum, water_plants])) ! 0) = Some True
   \<and> title (fst (fst (tick sample_host sample_platform 61000 ((True, granted), 0) [pay_bill, call_mum, water_plants])) ! 0) = title pay_bill"
  using tick_frame[of sample_host sample_platform 61000 "((True, granted), 0)" "[pay_bill, call_mum, water_plants]"]
  by (simp add: tick_pay_bill)

lemma static_not_eligible:
  "completed t \<or> \<not> truthy_str (due t) \<or> (\<exists>dueTs. getTime_due H t = Some dueTs \<and> now < dueTs)
     \<Longrightarrow> \<not> eligible H now t"
  by (auto simp: eligible_def)

lemma ticks_nth_not_eligible:
  "i < length prev \<Longrightarrow> \<forall>s\<in>set steps. \<not> eligible H (fst s) (prev ! i) \<Longrightarrow>
     length (ticks H P prev steps) = length prev \<and> ticks H P prev steps ! i = prev ! i"
proof (induction steps arbitrary: prev)
  case Nil
  then show ?case by simp
next
  case (Cons s steps)
  obtain now w where s: "s = (now, w)" by (cases s)
  let ?p = "fst (fst (tick H P now w prev))"
  from Cons.prems s have ne: "\<not> eligible H now (prev ! i)" by simp
  have same: "?p ! i = prev ! i" by (rule tick_nth_not_eligible[OF Cons.prems(1) ne])
  have len: "length ?p = length prev" by (rule length_tick)
  from Cons.prems same have "\<forall>s\<in>set steps. \<not> eligible H (fst s) (?p ! i)" by simp
  with Cons.IH[of ?p] len Cons.prems(1) same s show ?case by simp
qed

text \<open>
  Claim C3. A task that is completed, or has no due date, or whose due time lies
  strictly after the clock value of a tick, is left exactly as it was by that tick, so
  its \<open>notified\<close> is not set; and over any sequence of ticks whose clock values all
  lie before its due time (any sequence at all when it is completed or has no due
  date) the task at that position is still the same, whatever the platform does.
\<close>

theorem tick_never_notifies:
  assumes "i < length prev"
    and "completed (prev ! i) \<or> \<not> truthy_str (due (prev ! i)) \<or>
         (\<exists>dueTs. getTime_due H (prev ! i) = Some dueTs \<and> now < dueTs \<and> (\<forall>s\<in>set steps. fst s < dueTs))"
  shows "fst (fst (tick H P now w prev)) ! i = prev ! i \<and>
         notified (fst (fst (tick H P now w prev)) ! i) = notified (prev ! i) \<and>
         ticks H P prev steps ! i = prev ! i \<and>
         notified (ticks H P prev steps ! i) = notified (prev ! i)"
proof -
  from assms(2) have "\<not> eligible H now (prev ! i)"
    by (intro static_not_eligible) auto
  then have one: "fst (fst (tick H P now w prev)) ! i = prev ! i"
    by (rule tick_nth_not_eligible[OF assms(1)])
  have "\<forall>s\<in>set steps. \<not> eligible H (fst s) (prev ! i)"
  proof
    fix s assume "s \<in> set steps"
    with assms(2) show "\<not> eligible H (fst s) (prev ! i)"
      by (intro static_not_eligible) auto
  qed
  then have "ticks H P prev steps ! i = prev ! i"
    using ticks_nth_not_eligible[OF assms(1)] by blast
  with one show ?thesis by simp
qed

theorem tick_never_notifies_witness:
  "(0::nat) < length [pay_bill, call_mum, water_plants] \<and>
   getTime_due sample_host ([pay_bill, call_mum, water_plants] ! 0) = Some 60000 \<and>
   (0::int) < 60000 \<and> fst (30000::int, granted_state) < (60000::int) \<and>
   fst (fst (tick sample_host sample_platform 0 granted_state [pay_bill, call_mum, water_plants])) ! 0 = pay_bill \<and>
   ticks sample_host sample_platform [pay_bill, call_mum, water_plants] [(30000, granted_state)] ! 0 = pay_bill"
proof -
  have g: "getTime_due sample_host ([pay_bill, call_mum, water_plants] ! 0) = Some 60000"
    by (simp add: getTime_due_def sample_defs)
  have h: "completed ([pay_bill, call_mum, water_plants] ! 0) \<or>
      \<not> truthy_str (due ([pay_bill, call_mum, water_plants] ! 0)) \<or>
      (\<exists>dueTs. getTime_due sample_host ([pay_bill, call_mum, water_plants] ! 0) = Some dueTs \<and>
         0 < dueTs \<and> (\<forall>s\<in>set [(30000, granted_state)]. fst s < dueTs))"
    using g by simp
  have l: "(0::nat) < length [pay_bill, call_mum, water_plants]" by simp
  from tick_never_notifies[OF l h, of sample_platform granted_state] g
  show ?thesis by simp
qed

lemma no_eligible_tick_map:
  "\<forall>t\<in>set ts. \<not> eligible H now t \<Longrightarrow>
     tick_map H P now w ts = ((ts, False), w) \<and> dispatches H P now w ts = []"
  by (induction ts) (simp_all add: tick_task_not_eligible)

lemma all_sent_no_eligible:
  "\<forall>a\<in>set (dispatches H P now w ts). snd a \<Longrightarrow>
     \<forall>t\<in>set (fst (fst (tick_map H P now w ts))). \<not> eligible H now t"
proof (induction ts arbitrary: w)
  case Nil
  then show ?case by simp
next
  case (Cons t ts)
  show ?case
  proof (cases "eligible H now t")
    case True
    with Cons.prems have sent: "fst (notifyTask P w t)"
      and rest: "\<forall>a\<in>set (dispatches H P now (snd (notifyTask P w t)) ts). snd a"
      by simp_all
    have "\<not> eligible H now (t\<lparr>notified := Some True\<rparr>)"
      by (simp add: eligible_def truthy_bool_def)
    with Cons.IH[OF rest] True sent show ?thesis
      by (simp add: tick_map_Cons tick_task_eligible del: tick_map.simps(2))
  next
    case False
    with Cons.prems have rest: "\<forall>a\<in>set (dispatches H P now w ts). snd a" by simp
    with Cons.IH[OF rest] False show ?thesis
      by (simp add: tick_map_Cons tick_task_not_eligible del: tick_map.simps(2))
  qed
qed

text \<open>
  Claim C5. If every dispatch attempted in a tick succeeded, a second tick at the
  same clock value on the snapshot of the first, in any platform state, returns that
  snapshot with \<open>changed = false\<close> (so \<open>setTasks\<close> keeps the array and nothing is
  written), leaves the platform as it found it, and attempts no dispatch.
\<close>

theorem tick_idempotent:
  assumes "\<forall>a\<in>set (dispatches H P now w prev). snd a"
  shows "tick H P now w2 (fst (fst (tick H P now w prev)))
           = ((fst (fst (tick H P now w prev)), False), w2) \<and>
         dispatches H P now w2 (fst (fst (tick H P now w prev))) = []"
proof -
  let ?s = "fst (fst (tick H P now w prev))"
  have "\<forall>t\<in>set ?s. \<not> eligible H now t"
    using all_sent_no_eligible[OF assms] by (simp add: tick_snapshot)
  then have "tick_map H P now w2 ?s = ((?s, False), w2) \<and> dispatches H P now w2 ?s = []"
    by (rule no_eligible_tick_map)
  then show ?thesis by (simp add: tick_def)
qed

theorem tick_idempotent_witness:
  "dispatches sample_host sample_platform 61000 granted_state [pay_bill, call_mum, water_plants]
     = [(pay_bill, True)] \<and>
   fst (fst (tick sample_host sample_platform 61000 granted_state [pay_bill, call_mum, water_plants]))
     = [pay_bill\<lparr>notified := Some True\<rparr>, call_mum, water_plants] \<and>
   tick sample_host sample_platform 61000 denied_state
       [pay_bill\<lparr>notified := Some True\<rparr>, call_mum, water_plants]
     = (([pay_bill\<lparr>notified := Some True\<rparr>, call_mum, water_plants], False), denied_state)"
proof -
  have d: "dispatches sample_host sample_platform 61000 granted_state [pay_bill, call_mum, water_plants]
     = [(pay_bill, True)]"
    by (simp add: eval_defs sample_defs)
  have t: "fst (fst (tick sample_host sample_platform 61000 granted_state [pay_bill, call_mum, water_plants]))
     = [pay_bill\<lparr>notified := Some True\<rparr>, call_mum, water_plants]"
    by (simp add: eval_defs sample_defs)
  have a: "\<forall>a\<in>set (dispatches sample_host sample_platform 61000 granted_state [pay_bill, call_mum, water_plants]). snd a"
    unfolding d by simp
  from tick_idempotent[OF a, of denied_state] d t show ?thesis by simp
qed

lemma tick_map_changed:
  "snd (fst (tick_map H P now w ts)) = (\<exists>a\<in>set (dispatches H P now w ts). snd a)"
proof (induction ts arbitrary: w)
  case Nil
  show ?case by simp
next
  case (Cons t ts)
  show ?case
  proof (cases "eligible H now t")
    case True
    with Cons[of "snd (notifyTask P w t)"] show ?thesis
      by (simp add: tick_map_Cons tick_task_eligible del: tick_map.simps(2))
  next
    case False
    with Cons[of w] show ?thesis
      by (simp add: tick_map_Cons tick_task_not_eligible del: tick_map.simps(2))
  qed
qed

lemma eligible_dispatched:
  "t \<in> set ts \<Longrightarrow> eligible H now t \<Longrightarrow> \<exists>b. (t, b) \<in> set (dispatches H P now w ts)"
  by (induction ts arbitrary: w) auto

lemma eligible_later: "eligible H now t \<Longrightarrow> now \<le> now' \<Longrightarrow> eligible H now' t"
  by (auto simp: eligible_def split: option.splits)

lemma ticks_nth_failing:
  "i < length prev \<Longrightarrow> \<forall>w. \<not> fst (notifyTask P w (prev ! i)) \<Longrightarrow>
     length (ticks H P prev steps) = length prev \<and> ticks H P prev steps ! i = prev ! i"
proof (induction steps arbitrary: prev)
  case Nil
  then show ?case by simp
next
  case (Cons s steps)
  obtain now w where s: "s = (now, w)" by (cases s)
  let ?p = "fst (fst (tick H P now w prev))"
  let ?wi = "platform_at H P now w prev i"
  from Cons.prems(2) have "\<not> fst (notifyTask P ?wi (prev ! i))" by blast
  then have same: "?p ! i = prev ! i"
    using tick_nth[OF Cons.prems(1), of H P now w] tick_task_cases[of H P now ?wi "prev ! i"]
    by auto
  have len: "length ?p = length prev" by (rule length_tick)
  from Cons.prems same have "\<forall>w. \<not> fst (notifyTask P w (?p ! i))" by simp
  with Cons.IH[of ?p] len Cons.prems(1) same s show ?case by simp
qed

text \<open>
  Claim C6. If the task at position \<open>i\<close> is eligible and the dispatch the tick attempts
  for it reports failure, the tick leaves the task as it was: \<open>notified\<close> is still
  false, the task is eligible at every later clock value, and a tick at such a value
  attempts its dispatch again. While the dispatch for the task fails in every state
  of the platform, no sequence of ticks changes the task.
\<close>

theorem failed_dispatch_retried:
  assumes "i < length prev"
    and "eligible H now (prev ! i)"
    and "\<not> fst (notifyTask P (platform_at H P now w prev i) (prev ! i))"
  shows "fst (fst (tick H P now w prev)) ! i = prev ! i \<and>
         \<not> truthy_bool (notified (fst (fst (tick H P now w prev)) ! i)) \<and>
         (\<forall>now' w'. now \<le> now' \<longrightarrow>
            eligible H now' (fst (fst (tick H P now w prev)) ! i) \<and>
            (\<exists>b. (prev ! i, b) \<in> set (dispatches H P now' w' (fst (fst (tick H P now w prev)))))) \<and>
         ((\<forall>w. \<not> fst (notifyTask P w (prev ! i))) \<longrightarrow>
            (\<forall>steps. ticks H P prev steps ! i = prev ! i))"
proof -
  let ?s = "fst (fst (tick H P now w prev))"
  have same: "?s ! i = prev ! i"
    using tick_nth[OF assms(1), of H P now w] assms(2,3) by (auto simp: tick_task_eligible)
  have mem: "prev ! i \<in> set ?s"
    using same assms(1) length_tick[of H P now w prev] by (metis nth_mem)
  from assms(2) have nn: "\<not> truthy_bool (notified (prev ! i))" by (simp add: eligible_def)
  show ?thesis
  proof (intro conjI allI impI)
    show "?s ! i = prev ! i" by (rule same)
    show "\<not> truthy_bool (notified (?s ! i))" using same nn by simp
  next
    fix now' w' assume le: "now \<le> now'"
    from eligible_later[OF assms(2) le] show "eligible H now' (?s ! i)" by (simp add: same)
    from eligible_later[OF assms(2) le] mem
    show "\<exists>b. (prev ! i, b) \<in> set (dispatches H P now' w' ?s)"
      by (rule eligible_dispatched[rotated])
  next
    fix steps assume "\<forall>w. \<not> fst (notifyTask P w (prev ! i))"
    with ticks_nth_failing[OF assms(1), of P H steps]
    show "ticks H P prev steps ! i = prev ! i" by blast
  qed
qed

theorem failed_dispatch_retried_witness:
  "(0::nat) < length [pay_bill, call_mum, water_plants] \<and>
   eligible sample_host 61000 ([pay_bill, call_mum, water_plants] ! 0) \<and>
   \<not> fst (notifyTask sample_platform
            (platform_at sample_host sample_platform 61000 denied_state [pay_bill, call_mum, water_plants] 0)
            ([pay_bill, call_mum, water_plants] ! 0)) \<and>
   fst (fst (tick sample_host sample_platform 61000 denied_state [pay_bill, call_mum, water_plants])) ! 0 = pay_bill \<and>
   eligible sample_host 91000
     (fst (fst (tick sample_host sample_platform 61000 denied_state [pay_bill, call_mum, water_plants])) ! 0) \<and>
   \<not> fst (notifyTask absent_platform (platform_at sample_host absent_platform 61000 0
            [pay_bill, call_mum, water_plants] 0) pay_bill) \<and>
   ticks sample_host absent_platform [pay_bill, call_mum, water_plants] [(61000, 0), (91000, 0)] ! 0
     = pay_bill"
proof -
  have l: "(0::nat) < length [pay_bill, call_mum, water_plants]" by simp
  have e: "eligible sample_host 61000 ([pay_bill, call_mum, water_plants] ! 0)"
    by (simp add: eval_defs sample_defs)
  have f: "\<not> fst (notifyTask sample_platform
            (platform_at sample_host sample_platform 61000 denied_state [pay_bill, call_mum, water_plants] 0)
            ([pay_bill, call_mum, water_plants] ! 0))"
    by (simp add: eval_defs sample_defs)
  note r = failed_dispatch_retried[OF l e f]
  from r have s: "fst (fst (tick sample_host sample_platform 61000 denied_state
      [pay_bill, call_mum, water_plants])) ! 0 = pay_bill"
    by simp
  from r have "(61000::int) \<le> 91000 \<longrightarrow> eligible sample_host 91000
     (fst (fst (tick sample_host sample_platform 61000 denied_state [pay_bill, call_mum, water_plants])) ! 0)"
    by blast
  then have d: "eligible sample_host 91000
     (fst (fst (tick sample_host sample_platform 61000 denied_state [pay_bill, call_mum, water_plants])) ! 0)"
    by simp
  have n: "\<forall>w. \<not> fst (notifyTask absent_platform w ([pay_bill, call_mum, water_plants] ! 0))"
    by (simp add: notifyTask_def absent_platform_def)
  then have f': "\<not> fst (notifyTask absent_platform
            (platform_at sample_host absent_platform 61000 0 [pay_bill, call_mum, water_plants] 0)
            ([pay_bill, call_mum, water_plants] ! 0))"
    by blast
  note r' = failed_dispatch_retried[OF l e f']
  from r' n have "\<forall>steps. ticks sample_host absent_platform [pay_bill, call_mum, water_plants] steps ! 0
      = [pay_bill, call_mum, water_plants] ! 0"
    by blast
  then have "ticks sample_host absent_platform [pay_bill, call_mum, water_plants] [(61000, 0), (91000, 0)] ! 0
      = [pay_bill, call_mum, water_plants] ! 0"
    by (rule spec)
  then have t: "ticks sample_host absent_platform [pay_bill, call_mum, water_plants] [(61000, 0), (91000, 0)] ! 0
      = pay_bill"
    by (simp del: ticks.simps)
  from l e f s d f' t show ?thesis by simp
qed

subsection \<open>View projector\<close>

lemma placed_after_key:
  "due_valid H x \<Longrightarrow> due_valid H y \<Longrightarrow>
     placed_after (compare_due H) x y = (\<not> due_key H x \<le> due_key H y)"
  by (auto simp: placed_after_def compare_due_def due_key_def due_valid_def)

lemma insert_sorted_insort:
  "due_valid H x \<Longrightarrow> \<forall>y\<in>set ys. due_valid H y \<Longrightarrow>
     insert_sorted (compare_due H) x ys = insort_key (due_key H) x ys"
  by (induction ys) (simp_all add: placed_after_key)

lemma Array_sort_sort_key:
  "\<forall>y\<in>set xs. due_valid H y \<Longrightarrow> Array_sort (compare_due H) xs = sort_key (due_key H) xs"
proof (induction xs)
  case Nil
  then show ?case by (simp add: Array_sort_def)
next
  case (Cons x xs)
  then have IH: "Array_sort (compare_due H) xs = sort_key (due_key H) xs" by simp
  have "insert_sorted (compare_due H) x (sort_key (due_key H) xs)
          = insort_key (due_key H) x (sort_key (due_key H) xs)"
    using Cons.prems by (intro insert_sorted_insort) simp_all
  with IH show ?case by (simp add: Array_sort_def sort_key_def)
qed

lemma set_visible_unsorted: "set (visible_unsorted H now tasks tb fl query) \<subseteq> set tasks"
  by (auto simp: visible_unsorted_def todayList_def Let_def)

lemma key_le_ordered:
  "due_valid H a \<Longrightarrow> due_valid H b \<Longrightarrow> due_key H a \<le> due_key H b \<Longrightarrow> due_ordered H a b"
  by (auto simp: due_key_def due_ordered_def due_valid_def split: if_splits)

lemma due_Date_key:
  "due_valid H t \<Longrightarrow>
     (due_Date H t = k) =
       (case k of None \<Rightarrow> due_key H t = (True, 0)
        | Some None \<Rightarrow> False
        | Some (Some x) \<Rightarrow> due_key H t = (False, x))"
  by (auto simp: due_Date_def due_key_def due_valid_def split: option.splits)

lemma due_Date_None: "(due_Date H t = None) = (\<not> truthy_str (due t))"
  by (simp add: due_Date_def)

lemma sort_key_stable_Date:
  assumes "\<forall>y\<in>set xs. due_valid H y"
  shows "filter (\<lambda>t. due_Date H t = k) (sort_key (due_key H) xs) = filter (\<lambda>t. due_Date H t = k) xs"
proof -
  let ?Q = "\<lambda>t. (case k of None \<Rightarrow> due_key H t = (True, 0)
        | Some None \<Rightarrow> False
        | Some (Some x) \<Rightarrow> due_key H t = (False, x))"
  have l: "filter (\<lambda>t. due_Date H t = k) (sort_key (due_key H) xs) = filter ?Q (sort_key (due_key H) xs)"
    using assms by (intro filter_cong) (simp_all add: due_Date_key)
  have r: "filter (\<lambda>t. due_Date H t = k) xs = filter ?Q xs"
    using assms by (intro filter_cong) (simp_all add: due_Date_key)
  have "filter ?Q (sort_key (due_key H) xs) = filter ?Q xs"
  proof (cases k)
    case None
    then show ?thesis by (simp add: sort_key_stable)
  next
    case (Some d)
    then show ?thesis by (cases d) (simp_all add: sort_key_stable)
  qed
  with l r show ?thesis by simp
qed

text \<open>
  Claim C8, as the code has it. When every due date that is set parses to a valid
  time, the output of \<open>visible\<close> is ordered by due time, every task without a due date
  comes after every task with one, and the sort is stable: the tasks of one key, and
  so the tasks without a due date, keep the order they had before the sort. The sort
  neither adds nor drops a task.
\<close>

theorem visible_sorted_stable:
  assumes "\<forall>t\<in>set tasks. truthy_str (due t) \<longrightarrow> getTime_due H t \<noteq> None"
  shows "sorted_wrt (due_ordered H) (visible H now tasks tb fl query) \<and>
         (\<forall>i j. i < j \<and> j < length (visible H now tasks tb fl query) \<and>
                \<not> truthy_str (due (visible H now tasks tb fl query ! i))
                \<longrightarrow> \<not> truthy_str (due (visible H now tasks tb fl query ! j))) \<and>
         (\<forall>k. filter (\<lambda>t. due_Date H t = k) (visible H now tasks tb fl query)
               = filter (\<lambda>t. due_Date H t = k) (visible_unsorted H now tasks tb fl query)) \<and>
         filter (\<lambda>t. \<not> truthy_str (due t)) (visible H now tasks tb fl query)
           = filter (\<lambda>t. \<not> truthy_str (due t)) (visible_unsorted H now tasks tb fl query) \<and>
         set (visible H now tasks tb fl query) = set (visible_unsorted H now tasks tb fl query) \<and>
         length (visible H now tasks tb fl query) = length (visible_unsorted H now tasks tb fl query)"
proof -
  let ?src = "visible_unsorted H now tasks tb fl query"
  let ?out = "visible H now tasks tb fl query"
  have valid: "\<forall>y\<in>set ?src. due_valid H y"
    using assms set_visible_unsorted[of H now tasks tb fl query] by (auto simp: due_valid_def)
  have out: "?out = sort_key (due_key H) ?src"
    using Array_sort_sort_key[OF valid] by (simp add: visible_def)
  have "sorted (map (due_key H) ?out)" by (simp add: out)
  then have "sorted_wrt (\<lambda>a b. due_key H a \<le> due_key H b) ?out" by (simp add: sorted_map)
  then have s: "sorted_wrt (due_ordered H) ?out"
    by (rule sorted_wrt_mono_rel[rotated]) (use valid out in \<open>auto intro: key_le_ordered\<close>)
  have u: "\<forall>i j. i < j \<and> j < length ?out \<and> \<not> truthy_str (due (?out ! i))
                \<longrightarrow> \<not> truthy_str (due (?out ! j))"
    using s by (auto simp: sorted_wrt_iff_nth_less due_ordered_def split: if_splits)
  have st: "\<forall>k. filter (\<lambda>t. due_Date H t = k) ?out = filter (\<lambda>t. due_Date H t = k) ?src"
    using sort_key_stable_Date[OF valid] by (simp add: out)
  have "filter (\<lambda>t. due_Date H t = None) ?out = filter (\<lambda>t. due_Date H t = None) ?src"
    using st by blast
  then have un: "filter (\<lambda>t. \<not> truthy_str (due t)) ?out = filter (\<lambda>t. \<not> truthy_str (due t)) ?src"
    by (simp only: due_Date_None)
  from s u st un show ?thesis by (simp add: out)
qed

theorem visible_sorted_stable_witness:
  "getTime_due sample_host pay_bill = Some 60000 \<and> due call_mum = None \<and>
   getTime_due sample_host water_plants = Some 0 \<and>
   visible_unsorted sample_host 0 [call_mum, pay_bill, water_plants] tab_all filter_all []
     = [call_mum, pay_bill, water_plants] \<and>
   visible sample_host 0 [call_mum, pay_bill, water_plants] tab_all filter_all []
     = [water_plants, pay_bill, call_mum] \<and>
   sorted_wrt (due_ordered sample_host) [water_plants, pay_bill, call_mum]"
proof -
  have v: "\<forall>t\<in>set [call_mum, pay_bill, water_plants]. truthy_str (due t) \<longrightarrow> getTime_due sample_host t \<noteq> None"
    by (simp add: getTime_due_def truthy_str_def sample_defs)
  have u: "visible_unsorted sample_host 0 [call_mum, pay_bill, water_plants] tab_all filter_all []
     = [call_mum, pay_bill, water_plants]"
    by (simp add: visible_unsorted_def trim_def)
  have o: "visible sample_host 0 [call_mum, pay_bill, water_plants] tab_all filter_all []
     = [water_plants, pay_bill, call_mum]"
    unfolding visible_def u
    by (simp add: Array_sort_def placed_after_def compare_due_def getTime_due_def
        truthy_str_def sample_defs)
  have g: "getTime_due sample_host pay_bill = Some 60000" "due call_mum = None"
      "getTime_due sample_host water_plants = Some 0"
    by (simp_all add: getTime_due_def sample_defs)
  from visible_sorted_stable[OF v, of 0 tab_all filter_all "[]"] g u o show ?thesis by simp
qed

text \<open>
  Claim C8 as stated fails on a list that holds a due text which does not parse: the
  comparison with it is \<open>NaN\<close>, the sort leaves the list as it is, and a task due
  later stands before a task due earlier.
\<close>

theorem visible_sorted_counterexample:
  "visible sample_host 0 [tomorrow_task, broken_due_task, water_plants] tab_all filter_all []
     = [tomorrow_task, broken_due_task, water_plants] \<and>
   getTime_due sample_host tomorrow_task = Some 86400000 \<and>
   getTime_due sample_host water_plants = Some 0 \<and>
   \<not> sorted_wrt (due_ordered sample_host)
       (visible sample_host 0 [tomorrow_task, broken_due_task, water_plants] tab_all filter_all [])"
  by (simp add: visible_def visible_unsorted_def trim_def Array_sort_def placed_after_def compare_due_def
      getTime_due_def truthy_str_def due_ordered_def tomorrow_task_def broken_due_task_def sample_defs)

text \<open>
  Claim C9, as the code has it. On the tab \<open>all\<close> the output of \<open>visible\<close> depends on
  the tasks, the filter and the query only. On any tab, two clock values that fall on
  the same local calendar day give the same output: besides its four stated inputs,
  the view depends on the calendar day that \<open>isToday\<close> reads from the clock.
\<close>

theorem visible_inputs:
  "visible H now tasks tab_all fl query = visible H now' tasks tab_all fl query \<and>
   (same_day H now now' \<longrightarrow> visible H now tasks tb fl query = visible H now' tasks tb fl query)"
  by (auto simp: visible_def visible_unsorted_def todayList_def isToday_def same_day_def Let_def
      split: option.splits cong: filter_cong)

theorem visible_inputs_witness:
  "same_day sample_host 0 60000 \<and>
   visible sample_host 0 [pay_bill, call_mum, water_plants] tab_today filter_all []
     = visible sample_host 60000 [pay_bill, call_mum, water_plants] tab_today filter_all []"
  using visible_inputs[of sample_host 0 "[pay_bill, call_mum, water_plants]" filter_all "[]" 60000 tab_today]
  by (simp add: same_day_def sample_host_def)

text \<open>
  Claim C9 as stated fails: the same tasks, tab, filter and query give two different
  outputs at two clock values on different days.
\<close>

theorem visible_clock_counterexample:
  "visible sample_host 0 [pay_bill, call_mum, water_plants] tab_today filter_all []
     = [water_plants, pay_bill] \<and>
   visible sample_host 86400000 [pay_bill, call_mum, water_plants] tab_today filter_all [] = []"
  by (simp add: visible_def visible_unsorted_def todayList_def isToday_def due_Date_def getTime_due_def
      truthy_str_def trim_def Array_sort_def placed_after_def compare_due_def sample_defs)

end
